(* ===== verification/Prelude.thy ===== *)
theory Prelude
  imports Main "HOL-Library.Multiset"
begin

text \<open>
  Shared vocabulary of the TinySNS development: the names of the model's basic types,
  the small model of the C and C++ library calls that the client makes
  (\<open>strncmp\<close> on \<open>c_str()\<close>, \<open>std::string::substr\<close>), and generic list lemmas
  about sequences that are strictly ascending in a numeric key (post timestamps,
  delivery cursors), which the post store and the timeline theories share.
\<close>

named_theorems asc_simps "rewrite rules for strictly ascending sequences"

type_synonym username = string

subsection \<open>The C and C++ library calls of the client\<close>

text \<open>
  \<open>std::string::c_str()\<close> hands C functions the characters up to the first NUL;
  \<open>strncmp (a, b, n) == 0\<close> holds when the two C strings agree on their first
  \<open>n\<close> positions, the terminating NUL included when one of them is shorter.
\<close>

definition cstr :: "string \<Rightarrow> string" where
  "cstr s = takeWhile (\<lambda>c. c \<noteq> CHR 0x00) s"

definition strncmp_eq :: "string \<Rightarrow> string \<Rightarrow> nat \<Rightarrow> bool" where
  "strncmp_eq a b n \<longleftrightarrow> take n (cstr a @ [CHR 0x00]) = take n (cstr b @ [CHR 0x00])"

text \<open>
  The two ways a call of the client can end abnormally: \<open>std::string::substr(pos)\<close>
  throws \<open>std::out_of_range\<close> when \<open>pos > size()\<close>, and a method called through
  a null \<open>std::unique_ptr\<close> (the stub before \<open>connectTo\<close> created it) is
  undefined behaviour, which the model takes as the end of the program.
\<close>

datatype cpp_error = Out_of_range | Null_stub

definition substr_from :: "string \<Rightarrow> nat \<Rightarrow> cpp_error + string" where
  "substr_from s pos = (if length s < pos then Inl Out_of_range else Inr (drop pos s))"

lemma cstr_no_nul [simp]: "CHR 0x00 \<notin> set s \<Longrightarrow> cstr s = s"
  unfolding cstr_def by (auto simp: takeWhile_eq_all_conv)

lemma nul_notin_cstr: "CHR 0x00 \<notin> set (cstr s)"
  unfolding cstr_def by (auto dest: set_takeWhileD)

lemma take_append_nul:
  assumes "CHR 0x00 \<notin> set x" "CHR 0x00 \<notin> set lit"
  shows "take (length lit) (x @ [CHR 0x00]) = lit \<longleftrightarrow> take (length lit) x = lit"
proof
  assume h: "take (length lit) (x @ [CHR 0x00]) = lit"
  show "take (length lit) x = lit"
  proof (cases "length lit \<le> length x")
    case True
    with h show ?thesis by simp
  next
    case False
    then have "CHR 0x00 \<in> set (take (length lit) (x @ [CHR 0x00]))"
      by (simp add: take_append)
    with h assms(2) show ?thesis by simp
  qed
next
  assume h: "take (length lit) x = lit"
  then have "length (take (length lit) x) = length lit" by simp
  then have "length lit \<le> length x" by (simp add: min_def split: if_splits)
  with h show "take (length lit) (x @ [CHR 0x00]) = lit" by simp
qed

text \<open>
  Comparing with a literal of length \<open>n\<close> that holds no NUL is a prefix test on the
  C string: this is what \<open>strncmp(input_copy, "FOLLOW", 6) == 0\<close> decides.
\<close>

lemma strncmp_eq_prefix:
  assumes "CHR 0x00 \<notin> set lit"
  shows "strncmp_eq s lit (length lit) \<longleftrightarrow> take (length lit) (cstr s) = lit"
proof -
  have "take (length lit) (lit @ [CHR 0x00]) = lit" by simp
  then show ?thesis
    using take_append_nul [OF nul_notin_cstr assms, of s]
    by (simp add: strncmp_eq_def cstr_no_nul [OF assms])
qed

lemma cstr_Nil [simp]: "cstr [] = []"
  and cstr_Cons [simp]: "cstr (c # s) = (if c = CHR 0x00 then [] else c # cstr s)"
  by (simp_all add: cstr_def)

lemma cstr_append: "CHR 0x00 \<notin> set xs \<Longrightarrow> cstr (xs @ ys) = xs @ cstr ys"
  by (induction xs) auto

lemma cstr_idem [simp]: "cstr (cstr s) = cstr s"
  by (simp add: cstr_no_nul nul_notin_cstr)

lemma strncmp_eq_lit:
  "CHR 0x00 \<notin> set lit \<Longrightarrow> n = length lit \<Longrightarrow> strncmp_eq s lit n \<longleftrightarrow> take n (cstr s) = lit"
  by (simp add: strncmp_eq_prefix)

lemma substr_from_ok [simp]: "pos \<le> length s \<Longrightarrow> substr_from s pos = Inr (drop pos s)"
  by (simp add: substr_from_def)

lemma substr_from_short [simp]: "length s < pos \<Longrightarrow> substr_from s pos = Inl Out_of_range"
  by (simp add: substr_from_def)

lemma substr_from_Inl [simp]: "substr_from s pos = Inl e \<longleftrightarrow> length s < pos \<and> e = Out_of_range"
  by (auto simp: substr_from_def)

subsection \<open>Sequences strictly ascending in a key\<close>

definition ascending :: "('a \<Rightarrow> nat) \<Rightarrow> 'a list \<Rightarrow> bool" where
  "ascending k xs \<longleftrightarrow> sorted_wrt (\<lambda>x y. k x < k y) xs"

lemma ascending_Nil [simp, asc_simps]: "ascending k []"
  by (simp add: ascending_def)

lemma ascending_Cons [simp, asc_simps]:
  "ascending k (x # xs) \<longleftrightarrow> (\<forall>y \<in> set xs. k x < k y) \<and> ascending k xs"
  by (simp add: ascending_def)

lemma ascending_append [asc_simps]:
  "ascending k (xs @ ys) \<longleftrightarrow>
     ascending k xs \<and> ascending k ys \<and> (\<forall>x \<in> set xs. \<forall>y \<in> set ys. k x < k y)"
  by (simp add: ascending_def sorted_wrt_append)

lemma ascending_snoc [asc_simps]:
  "ascending k (xs @ [y]) \<longleftrightarrow> ascending k xs \<and> (\<forall>x \<in> set xs. k x < k y)"
  by (simp add: ascending_append)

lemma ascending_filter [asc_simps]: "ascending k xs \<Longrightarrow> ascending k (filter P xs)"
  by (simp add: ascending_def sorted_wrt_filter)

lemma ascending_distinct: "ascending k xs \<Longrightarrow> distinct (map k xs)"
  by (induction xs) auto

lemma ascending_sorted: "ascending k xs \<Longrightarrow> sorted (map k xs)"
  by (induction xs) (auto simp: less_imp_le)

lemma ascending_last_max:
  "ascending k xs \<Longrightarrow> x \<in> set xs \<Longrightarrow> k x \<le> k (last xs)"
  by (induction xs) (auto simp: less_imp_le)

lemma ascending_iff: "ascending k xs \<longleftrightarrow> sorted (map k xs) \<and> distinct (map k xs)"
proof -
  have "sorted_wrt (<) (map k xs) \<longleftrightarrow> sorted (map k xs) \<and> distinct (map k xs)"
    by (rule strict_sorted_iff)
  then show ?thesis by (simp add: ascending_def sorted_wrt_map)
qed

lemma filter_same_key_singleton:
  "distinct (map k xs) \<Longrightarrow> x \<in> set xs \<Longrightarrow> filter (\<lambda>y. k x = k y) xs = [x]"
proof (induction xs)
  case Nil
  then show ?case by simp
next
  case (Cons y ys)
  show ?case
  proof (cases "y = x")
    case True
    with Cons.prems have "\<forall>z \<in> set ys. k x \<noteq> k z" by auto
    with True show ?thesis by simp
  next
    case False
    with Cons.prems have x: "x \<in> set ys" by simp
    have "k y \<notin> k ` set ys" using Cons.prems(1) by simp
    with x have "k x \<noteq> k y" by (metis imageI)
    with Cons.IH Cons.prems(1) x show ?thesis by simp
  qed
qed

text \<open>
  On an ascending sequence, skipping the prefix below a bound computes the same as
  filtering the whole sequence: the optimisation the post store uses for its range
  query.
\<close>

lemma dropWhile_eq_filter_ascending:
  "ascending k xs \<Longrightarrow> dropWhile (\<lambda>x. k x \<le> c) xs = filter (\<lambda>x. c < k x) xs"
proof (induction xs)
  case Nil
  then show ?case by simp
next
  case (Cons x xs)
  show ?case
  proof (cases "k x \<le> c")
    case True
    with Cons show ?thesis by simp
  next
    case False
    with Cons.prems have "\<forall>y \<in> set xs. c < k y" by auto
    with False show ?thesis by simp
  qed
qed

lemma upt_map_Suc: "map f [n..<n + Suc m] = f n # map f [Suc n..<Suc n + m]"
  by (simp add: upt_conv_Cons del: upt_Suc)

end
