(* ===== verification/PostStore.thy ===== *)
theory PostStore
  imports Prelude
begin

text \<open>
  The Post Store of the server (spec \<section>3 Post, \<section>4.3), modelled from the spec:
  one append-only log per author and one server-global logical clock. \<open>Append\<close>
  is \<open>append_post\<close>: the new post takes the next tick of the clock, so timestamps
  start at 1 and a cursor equal to the clock selects only posts still to come.
  \<open>PostsAfter\<close> is \<open>posts_after\<close>, which skips the prefix of the author's log
  at or below the cursor; \<open>posts_after_spec\<close> is its reference definition as a
  filter, and the two agree on every store that satisfies \<open>store_inv\<close>. An
  author without a log (never posted, or unknown) has the empty log, which is the
  spec's "vanished author contributes nothing".
\<close>

record post =
  author :: username
  post_text :: string
  stamp :: nat

record store =
  logs :: "username \<Rightarrow> post list"
  clock :: nat

definition empty_store :: store where
  "empty_store = \<lparr>logs = (\<lambda>_. []), clock = 0\<rparr>"

definition append_post :: "username \<Rightarrow> string \<Rightarrow> store \<Rightarrow> post \<times> store" where
  "append_post a txt st =
     (let p = \<lparr>author = a, post_text = txt, stamp = Suc (clock st)\<rparr>
      in (p, st\<lparr>logs := (logs st)(a := logs st a @ [p]), clock := Suc (clock st)\<rparr>))"

definition posts_after :: "store \<Rightarrow> username \<Rightarrow> nat \<Rightarrow> post list" where
  "posts_after st a c = dropWhile (\<lambda>p. stamp p \<le> c) (logs st a)"

definition posts_after_spec :: "store \<Rightarrow> username \<Rightarrow> nat \<Rightarrow> post list" where
  "posts_after_spec st a c = filter (\<lambda>p. c < stamp p) (logs st a)"

text \<open>Appending several posts from one author, one after another (a client's stream).\<close>

fun append_posts :: "username \<Rightarrow> string list \<Rightarrow> store \<Rightarrow> post list \<times> store" where
  "append_posts a [] st = ([], st)"
| "append_posts a (t # ts) st =
     (let (p, st') = append_post a t st; (ps, st'') = append_posts a ts st' in (p # ps, st''))"

definition stamps_unique :: "store \<Rightarrow> bool" where
  "stamps_unique st \<longleftrightarrow>
     (\<forall>a b. \<forall>p \<in> set (logs st a). \<forall>q \<in> set (logs st b). stamp p = stamp q \<longrightarrow> a = b)"

definition store_inv :: "store \<Rightarrow> bool" where
  "store_inv st \<longleftrightarrow>
     (\<forall>a. ascending stamp (logs st a)
        \<and> (\<forall>p \<in> set (logs st a). author p = a \<and> 0 < stamp p \<and> stamp p \<le> clock st))
     \<and> stamps_unique st"

subsection \<open>Append\<close>

lemma append_post_fst [simp]:
  "fst (append_post a txt st) = \<lparr>author = a, post_text = txt, stamp = Suc (clock st)\<rparr>"
  by (simp add: append_post_def Let_def)

lemma append_post_clock [simp]: "clock (snd (append_post a txt st)) = Suc (clock st)"
  by (simp add: append_post_def Let_def)

lemma append_post_logs [simp]:
  "logs (snd (append_post a txt st)) = (logs st)(a := logs st a @ [fst (append_post a txt st)])"
  by (simp add: append_post_def Let_def)

lemma empty_store_simps [simp]: "logs empty_store a = []" "clock empty_store = 0"
  by (simp_all add: empty_store_def)

lemma store_inv_empty: "store_inv empty_store"
  by (simp add: store_inv_def stamps_unique_def empty_store_def)

lemma store_inv_stamp_le: "store_inv st \<Longrightarrow> p \<in> set (logs st a) \<Longrightarrow> stamp p \<le> clock st"
  by (simp add: store_inv_def)

lemma store_inv_author: "store_inv st \<Longrightarrow> p \<in> set (logs st a) \<Longrightarrow> author p = a"
  by (simp add: store_inv_def)

lemma store_inv_ascending: "store_inv st \<Longrightarrow> ascending stamp (logs st a)"
  by (simp add: store_inv_def)

lemma stamps_unique_append:
  assumes "store_inv st"
  shows "stamps_unique (snd (append_post a txt st))"
  unfolding stamps_unique_def
proof (intro allI ballI impI)
  fix x y p q
  assume p: "p \<in> set (logs (snd (append_post a txt st)) x)"
    and q: "q \<in> set (logs (snd (append_post a txt st)) y)"
    and eq: "stamp p = stamp q"
  have old: "stamp r \<le> clock st" if "r \<in> set (logs st z)" for r z
    using assms that by (rule store_inv_stamp_le)
  from assms have u: "stamps_unique st" by (simp add: store_inv_def)
  let ?n = "fst (append_post a txt st)"
  from p have pc: "p \<in> set (logs st x) \<or> (x = a \<and> p = ?n)"
    by (auto split: if_splits)
  from q have qc: "q \<in> set (logs st y) \<or> (y = a \<and> q = ?n)"
    by (auto split: if_splits)
  from pc qc show "x = y"
  proof (elim disjE conjE)
    assume "p \<in> set (logs st x)" "q \<in> set (logs st y)"
    with u eq show ?thesis by (auto simp: stamps_unique_def)
  next
    assume "p \<in> set (logs st x)" "y = a" "q = ?n"
    with old [of p x] eq show ?thesis by simp
  next
    assume "x = a" "p = ?n" "q \<in> set (logs st y)"
    with old [of q y] eq show ?thesis by simp
  next
    assume "x = a" "p = ?n" "y = a" "q = ?n"
    then show ?thesis by simp
  qed
qed

lemma store_inv_append:
  assumes "store_inv st"
  shows "store_inv (snd (append_post a txt st))"
proof -
  have old: "stamp r \<le> clock st \<and> author r = z \<and> 0 < stamp r" if "r \<in> set (logs st z)" for r z
    using assms that by (simp add: store_inv_def)
  have asc: "ascending stamp (logs st z)" for z
    using assms by (rule store_inv_ascending)
  have "ascending stamp (logs (snd (append_post a txt st)) z)" for z
    using asc old by (force simp: ascending_snoc)
  moreover have "\<forall>p \<in> set (logs (snd (append_post a txt st)) z).
      author p = z \<and> 0 < stamp p \<and> stamp p \<le> clock (snd (append_post a txt st))" for z
    using old by (auto simp: le_SucI)
  ultimately show ?thesis
    using stamps_unique_append [OF assms] by (simp add: store_inv_def)
qed


lemma append_posts_clock [simp]:
  "clock (snd (append_posts a ts st)) = clock st + length ts"
  by (induction ts arbitrary: st) (simp_all add: split_def Let_def)

lemma append_posts_stamps:
  "map stamp (fst (append_posts a ts st)) = [Suc (clock st) ..< Suc (clock st + length ts)]"
proof (induction ts arbitrary: st)
  case Nil
  then show ?case by simp
next
  case (Cons t ts)
  have "[Suc (clock st) ..< Suc (clock st + length (t # ts))]
        = Suc (clock st) # [Suc (Suc (clock st)) ..< Suc (Suc (clock st) + length ts)]"
    by (simp add: upt_conv_Cons del: upt_Suc)
  with Cons.IH [of "snd (append_post a t st)"] show ?case
    by (simp add: split_def Let_def del: upt_Suc)
qed

lemma append_posts_texts: "map post_text (fst (append_posts a ts st)) = ts"
  by (induction ts arbitrary: st) (simp_all add: split_def Let_def)

lemma append_posts_log:
  "logs (snd (append_posts a ts st)) a = logs st a @ fst (append_posts a ts st)"
  by (induction ts arbitrary: st) (simp_all add: split_def Let_def)

lemma append_posts_other:
  "b \<noteq> a \<Longrightarrow> logs (snd (append_posts a ts st)) b = logs st b"
  by (induction ts arbitrary: st) (simp_all add: split_def Let_def)

lemma store_inv_append_posts: "store_inv st \<Longrightarrow> store_inv (snd (append_posts a ts st))"
  by (induction ts arbitrary: st) (simp_all add: split_def Let_def store_inv_append)

subsection \<open>Range query\<close>

lemma posts_after_eq_spec: "store_inv st \<Longrightarrow> posts_after st a c = posts_after_spec st a c"
  unfolding posts_after_def posts_after_spec_def
  by (rule dropWhile_eq_filter_ascending) (rule store_inv_ascending)

lemma set_posts_after_spec [simp]:
  "set (posts_after_spec st a c) = {p \<in> set (logs st a). c < stamp p}"
  by (auto simp: posts_after_spec_def)

lemma ascending_posts_after_spec: "store_inv st \<Longrightarrow> ascending stamp (posts_after_spec st a c)"
  unfolding posts_after_spec_def by (rule ascending_filter) (rule store_inv_ascending)

end
