(* ===== verification/Wire.thy ===== *)
theory Wire
  imports Prelude
begin

text \<open>
  The status taxonomy that crosses the RPC boundary. \<open>istatus\<close> is the client's
  \<open>enum IStatus\<close> (client.h); the server answers every command with a
  \<open>ReplyStatus\<close> message whose \<open>status\<close> field is a decimal digit string.
  \<open>decode_status\<close> is the chain of comparisons at the end of
  \<open>Client::processCommand\<close> (src/tsc.cc); \<open>encode_status\<close> is the server
  fa\<c>cade's side of the same table, and \<open>fail\<close> the closed set of
  component-level error kinds that the fa\<c>cade maps onto the wire.
\<close>

datatype istatus =
    SUCCESS
  | FAILURE_ALREADY_EXISTS
  | FAILURE_NOT_EXISTS
  | FAILURE_INVALID_USERNAME
  | FAILURE_INVALID
  | FAILURE_UNKNOWN

datatype fail = Already_exists | Not_exists | Invalid_username | Invalid | Unknown

definition decode_status :: "string \<Rightarrow> istatus" where
  "decode_status st =
     (if st = ''0'' then SUCCESS
      else if st = ''1'' then FAILURE_ALREADY_EXISTS
      else if st = ''2'' then FAILURE_NOT_EXISTS
      else if st = ''3'' then FAILURE_INVALID_USERNAME
      else if st = ''4'' then FAILURE_INVALID
      else if st = ''5'' then FAILURE_UNKNOWN
      else SUCCESS)"

primrec encode_status :: "istatus \<Rightarrow> string" where
  "encode_status SUCCESS = ''0''"
| "encode_status FAILURE_ALREADY_EXISTS = ''1''"
| "encode_status FAILURE_NOT_EXISTS = ''2''"
| "encode_status FAILURE_INVALID_USERNAME = ''3''"
| "encode_status FAILURE_INVALID = ''4''"
| "encode_status FAILURE_UNKNOWN = ''5''"

primrec status_of_fail :: "fail \<Rightarrow> istatus" where
  "status_of_fail Already_exists = FAILURE_ALREADY_EXISTS"
| "status_of_fail Not_exists = FAILURE_NOT_EXISTS"
| "status_of_fail Invalid_username = FAILURE_INVALID_USERNAME"
| "status_of_fail Invalid = FAILURE_INVALID"
| "status_of_fail Unknown = FAILURE_UNKNOWN"

definition status_of :: "fail + 'a \<Rightarrow> istatus" where
  "status_of r = (case r of Inl e \<Rightarrow> status_of_fail e | Inr _ \<Rightarrow> SUCCESS)"

text \<open>The wire codes the server may send: one per status.\<close>

definition wire_codes :: "string set" where
  "wire_codes = {''0'', ''1'', ''2'', ''3'', ''4'', ''5''}"

lemma status_of_Inl [simp]: "status_of (Inl e) = status_of_fail e"
  and status_of_Inr [simp]: "status_of (Inr x) = SUCCESS"
  by (simp_all add: status_of_def)

lemma status_of_fail_not_success [simp]: "status_of_fail e \<noteq> SUCCESS"
  by (cases e) simp_all

lemma encode_status_in_wire_codes: "encode_status s \<in> wire_codes"
  by (cases s) (simp_all add: wire_codes_def)

lemma wire_codes_eq: "wire_codes = range encode_status"
proof
  show "wire_codes \<subseteq> range encode_status"
  proof
    fix st assume "st \<in> wire_codes"
    then show "st \<in> range encode_status"
      unfolding wire_codes_def
      by (auto intro: range_eqI [where x = SUCCESS] range_eqI [where x = FAILURE_ALREADY_EXISTS]
            range_eqI [where x = FAILURE_NOT_EXISTS] range_eqI [where x = FAILURE_INVALID_USERNAME]
            range_eqI [where x = FAILURE_INVALID] range_eqI [where x = FAILURE_UNKNOWN])
  qed
next
  show "range encode_status \<subseteq> wire_codes"
    using encode_status_in_wire_codes by blast
qed

end
