(* ===== verification/Directory.thy ===== *)
theory Directory
  imports Wire
begin

text \<open>
  The User Directory of the server (spec \<section>4.1). The repository's server,
  src/tsd.cc, contains only its include and using declarations, so this component is
  modelled from the spec: the directory is the list of registered usernames in
  registration order (the order in which \<open>List\<close> reports them), \<open>EnsureUser\<close> is
  \<open>ensure_user\<close> and \<open>Exists\<close> is \<open>user_exists\<close>. Its invariant: no name twice and
  no empty name. The lemmas give the behaviour of \<open>ensure_user\<close> on each branch,
  its idempotence, and that it keeps the invariant.
\<close>

type_synonym directory = "username list"

definition user_exists :: "directory \<Rightarrow> username \<Rightarrow> bool" where
  "user_exists d name \<longleftrightarrow> name \<in> set d"

definition ensure_user :: "username \<Rightarrow> directory \<Rightarrow> fail + bool \<times> directory" where
  "ensure_user name d =
     (if name = [] then Inl Invalid_username
      else if user_exists d name then Inr (False, d)
      else Inr (True, d @ [name]))"

definition dir_inv :: "directory \<Rightarrow> bool" where
  "dir_inv d \<longleftrightarrow> distinct d \<and> [] \<notin> set d"

lemma ensure_user_empty [simp]: "ensure_user [] d = Inl Invalid_username"
  by (simp add: ensure_user_def)

lemma ensure_user_cases:
  "ensure_user name d =
     (if name = [] then Inl Invalid_username
      else if name \<in> set d then Inr (False, d) else Inr (True, d @ [name]))"
  by (simp add: ensure_user_def user_exists_def)

lemma ensure_user_Inr:
  assumes "ensure_user name d = Inr (created, d')"
  shows "name \<noteq> [] \<and> user_exists d' name \<and> set d' = insert name (set d)
         \<and> (created \<longleftrightarrow> \<not> user_exists d name)"
  using assms by (auto simp: ensure_user_cases user_exists_def split: if_splits)

lemma ensure_user_inv:
  "dir_inv d \<Longrightarrow> ensure_user name d = Inr (created, d') \<Longrightarrow> dir_inv d'"
  by (auto simp: ensure_user_cases dir_inv_def split: if_splits)

lemma ensure_user_existing:
  "user_exists d name \<Longrightarrow> name \<noteq> [] \<Longrightarrow> ensure_user name d = Inr (False, d)"
  by (simp add: ensure_user_def)

lemma user_exists_mono:
  "ensure_user name d = Inr (created, d') \<Longrightarrow> user_exists d x \<Longrightarrow> user_exists d' x"
  by (auto simp: ensure_user_cases user_exists_def split: if_splits)

end
