(* ===== verification/FollowGraph.thy ===== *)
theory FollowGraph
  imports Directory
begin

text \<open>
  The Follow Graph of the server (spec \<section>3 FollowEdge, \<section>4.2), modelled from the
  spec: the graph is the list of follow edges \<open>(follower, followee)\<close> in the order
  they were added. \<open>follow\<close> and \<open>unfollow\<close> are the spec's \<open>Follow\<close> and
  \<open>Unfollow\<close> with their guards in the spec's order; the directory is an
  interface parameter \<open>known\<close> (the fa\<c>cade passes \<open>user_exists\<close>), so every
  lemma here holds for any directory. \<open>following\<close> is \<open>ListFollowing\<close>.
  \<open>graph_inv\<close> is the data-model invariant: no duplicate edge, no self edge, both
  ends registered.
\<close>

type_synonym graph = "(username \<times> username) list"

definition following :: "graph \<Rightarrow> username \<Rightarrow> username list" where
  "following g a = map snd (filter (\<lambda>e. fst e = a) g)"

definition follow :: "(username \<Rightarrow> bool) \<Rightarrow> username \<Rightarrow> username \<Rightarrow> graph \<Rightarrow> fail + graph" where
  "follow known a b g =
     (if \<not> known a then Inl Invalid_username
      else if a = b then Inl Invalid
      else if \<not> known b then Inl Not_exists
      else if (a, b) \<in> set g then Inl Already_exists
      else Inr (g @ [(a, b)]))"

definition unfollow :: "username \<Rightarrow> username \<Rightarrow> graph \<Rightarrow> fail + graph" where
  "unfollow a b g = (if (a, b) \<notin> set g then Inl Not_exists else Inr (removeAll (a, b) g))"

definition graph_inv :: "(username \<Rightarrow> bool) \<Rightarrow> graph \<Rightarrow> bool" where
  "graph_inv known g \<longleftrightarrow> distinct g \<and> (\<forall>(a, b) \<in> set g. a \<noteq> b \<and> known a \<and> known b)"

subsection \<open>Behaviour of each operation\<close>

lemma set_following [simp]: "set (following g a) = {b. (a, b) \<in> set g}"
  by (force simp: following_def)

lemma following_append [simp]: "following (g @ h) a = following g a @ following h a"
  by (simp add: following_def)

lemma following_removeAll:
  "following (removeAll (a, b) g) x = (if x = a then removeAll b (following g x) else following g x)"
  by (induction g) (auto simp: following_def)

lemma follow_Inr_iff:
  "follow known a b g = Inr g' \<longleftrightarrow>
     known a \<and> a \<noteq> b \<and> known b \<and> (a, b) \<notin> set g \<and> g' = g @ [(a, b)]"
  by (auto simp: follow_def)

lemma unfollow_Inr_iff:
  "unfollow a b g = Inr g' \<longleftrightarrow> (a, b) \<in> set g \<and> g' = removeAll (a, b) g"
  by (auto simp: unfollow_def)

lemma follow_edge: "follow known a b g = Inr g' \<Longrightarrow> set g' = insert (a, b) (set g)"
  by (auto simp: follow_Inr_iff)

lemma unfollow_edge: "unfollow a b g = Inr g' \<Longrightarrow> set g' = set g - {(a, b)}"
  by (auto simp: unfollow_Inr_iff)

subsection \<open>The invariant\<close>

lemma graph_inv_follow:
  "graph_inv known g \<Longrightarrow> follow known a b g = Inr g' \<Longrightarrow> graph_inv known g'"
  by (auto simp: graph_inv_def follow_Inr_iff)

lemma graph_inv_unfollow:
  "graph_inv known g \<Longrightarrow> unfollow a b g = Inr g' \<Longrightarrow> graph_inv known g'"
  by (auto simp: graph_inv_def unfollow_Inr_iff distinct_removeAll)

lemma graph_inv_known_mono:
  "graph_inv known g \<Longrightarrow> (\<And>x. known x \<Longrightarrow> known' x) \<Longrightarrow> graph_inv known' g"
  by (auto simp: graph_inv_def)

lemma graph_inv_following_distinct:
  "graph_inv known g \<Longrightarrow> distinct (following g a)"
proof -
  assume "graph_inv known g"
  then have "distinct g" by (simp add: graph_inv_def)
  then have "distinct (filter (\<lambda>e. fst e = a) g)" by simp
  moreover have "inj_on snd (set (filter (\<lambda>e. fst e = a) g))"
    by (auto simp: inj_on_def)
  ultimately show ?thesis by (simp add: following_def distinct_map)
qed

lemma graph_inv_not_self: "graph_inv known g \<Longrightarrow> a \<notin> set (following g a)"
  unfolding graph_inv_def by fastforce

lemma graph_inv_following_known:
  "graph_inv known g \<Longrightarrow> b \<in> set (following g a) \<Longrightarrow> known b"
  by (auto simp: graph_inv_def)

text \<open>
  The authors a subscriber reads from: itself and its followees, each once. The
  timeline engine merges one post log per author of this list.
\<close>

definition authors_of :: "graph \<Rightarrow> username \<Rightarrow> username list" where
  "authors_of g a = a # following g a"

lemma authors_of_distinct: "graph_inv known g \<Longrightarrow> distinct (authors_of g a)"
  using graph_inv_not_self [of known g a] graph_inv_following_distinct [of known g a]
  by (auto simp: authors_of_def)

lemma set_authors_of [simp]: "set (authors_of g a) = insert a {b. (a, b) \<in> set g}"
  by (simp add: authors_of_def)

end
