(* ===== verification/Timeline.thy ===== *)
theory Timeline
  imports PostStore FollowGraph
begin

text \<open>
  The Timeline Merge Engine (spec \<section>4.4), modelled from the spec. One delivery
  cycle for a subscriber with cursor \<open>cur\<close> fetches \<open>posts_after\<close> for every
  author it reads from, merges the per-author sequences by ascending timestamp with
  the pairwise merge \<open>merge2\<close> (stable: on equal stamps the earlier list wins),
  folded over the authors (\<open>kmerge\<close>), delivers the result and moves the cursor to
  the stamp of the last delivered post. \<open>timeline_spec\<close> is the abstract
  contract: the visible posts after the cursor, sorted by stamp; the refinement lemma
  shows the cycle computes exactly it.
\<close>

fun merge2 :: "post list \<Rightarrow> post list \<Rightarrow> post list" where
  "merge2 [] ys = ys"
| "merge2 xs [] = xs"
| "merge2 (x # xs) (y # ys) =
     (if stamp x \<le> stamp y then x # merge2 xs (y # ys) else y # merge2 (x # xs) ys)"

definition kmerge :: "post list list \<Rightarrow> post list" where
  "kmerge xss = foldr merge2 xss []"

definition timeline_cycle :: "store \<Rightarrow> username list \<Rightarrow> nat \<Rightarrow> post list \<times> nat" where
  "timeline_cycle st authors cur =
     (let new = kmerge (map (\<lambda>a. posts_after st a cur) authors)
      in (new, if new = [] then cur else stamp (last new)))"

definition visible :: "store \<Rightarrow> username list \<Rightarrow> nat \<Rightarrow> post set" where
  "visible st authors cur = {p. \<exists>a \<in> set authors. p \<in> set (logs st a) \<and> cur < stamp p}"

definition timeline_spec :: "store \<Rightarrow> username list \<Rightarrow> nat \<Rightarrow> post list" where
  "timeline_spec st authors cur =
     sort_key stamp (concat (map (\<lambda>a. posts_after_spec st a cur) authors))"

subsection \<open>The pairwise and the k-way merge\<close>

lemma mset_merge2 [simp]: "mset (merge2 xs ys) = mset xs + mset ys"
  by (induction xs ys rule: merge2.induct) auto

lemma set_merge2 [simp]: "set (merge2 xs ys) = set xs \<union> set ys"
  by (induction xs ys rule: merge2.induct) auto

lemma sorted_merge2:
  "sorted (map stamp (merge2 xs ys)) \<longleftrightarrow> sorted (map stamp xs) \<and> sorted (map stamp ys)"
  by (induction xs ys rule: merge2.induct) (auto simp: ball_Un)

lemma mset_kmerge [simp]: "mset (kmerge xss) = mset (concat xss)"
  by (induction xss) (simp_all add: kmerge_def)

lemma set_kmerge [simp]: "set (kmerge xss) = set (concat xss)"
  by (metis mset_kmerge set_mset_mset)

lemma sorted_kmerge:
  "\<forall>xs \<in> set xss. sorted (map stamp xs) \<Longrightarrow> sorted (map stamp (kmerge xss))"
  by (induction xss) (simp_all add: kmerge_def sorted_merge2)

text \<open>
  With stamps unique across the inputs, the k-way merge is the stable sort of the
  concatenation: merging sorted logs is an optimised way to sort them.
\<close>

lemma kmerge_eq_sort_key:
  assumes sorted: "\<forall>xs \<in> set xss. sorted (map stamp xs)"
    and dist: "distinct (map stamp (concat xss))"
  shows "kmerge xss = sort_key stamp (concat xss)"
proof (rule properties_for_sort_key [symmetric])
  show "mset (kmerge xss) = mset (concat xss)" by simp
  show "sorted (map stamp (kmerge xss))" using sorted by (rule sorted_kmerge)
  have dk: "distinct (map stamp (kmerge xss))"
    using dist mset_eq_imp_distinct_iff [of "map stamp (kmerge xss)" "map stamp (concat xss)"]
    by simp
  fix k assume "k \<in> set (kmerge xss)"
  then have "k \<in> set (concat xss)" by simp
  with dk dist \<open>k \<in> set (kmerge xss)\<close> show
    "filter (\<lambda>x. stamp k = stamp x) (kmerge xss) = filter (\<lambda>x. stamp k = stamp x) (concat xss)"
    by (simp add: filter_same_key_singleton)
qed

subsection \<open>The inputs of a cycle\<close>

lemma stamps_unique_disjoint:
  "stamps_unique st \<Longrightarrow> a \<noteq> b \<Longrightarrow> p \<in> set (logs st a) \<Longrightarrow> q \<in> set (logs st b)
   \<Longrightarrow> stamp p \<noteq> stamp q"
  unfolding stamps_unique_def by blast

lemma distinct_stamps_logs:
  assumes inv: "store_inv st"
  shows "distinct authors \<Longrightarrow> distinct (map stamp (concat (map (logs st) authors)))"
proof (induction authors)
  case Nil
  then show ?case by simp
next
  case (Cons a as)
  have u: "stamps_unique st" using inv by (simp add: store_inv_def)
  have d: "distinct (map stamp (logs st a))"
    using inv by (simp add: store_inv_ascending ascending_distinct)
  have "stamp p \<noteq> stamp q" if "p \<in> set (logs st a)" "b \<in> set as" "q \<in> set (logs st b)" for p q b
  proof -
    from Cons.prems that(2) have "a \<noteq> b" by auto
    from u \<open>a \<noteq> b\<close> that(1,3) show ?thesis by (rule stamps_unique_disjoint)
  qed
  then have "set (map stamp (logs st a)) \<inter> set (map stamp (concat (map (logs st) as))) = {}"
    by fastforce
  with Cons d show ?case by simp
qed

lemma cycle_inputs_eq:
  "store_inv st \<Longrightarrow> map (\<lambda>a. posts_after st a cur) authors
     = map (\<lambda>a. posts_after_spec st a cur) authors"
  by (simp add: posts_after_eq_spec)

lemma concat_posts_after_spec:
  "concat (map (\<lambda>a. posts_after_spec st a cur) authors)
     = filter (\<lambda>p. cur < stamp p) (concat (map (logs st) authors))"
  by (simp add: posts_after_spec_def filter_concat comp_def)

lemma cycle_inputs_sorted:
  "store_inv st \<Longrightarrow> \<forall>xs \<in> set (map (\<lambda>a. posts_after_spec st a cur) authors). sorted (map stamp xs)"
  by (auto intro!: ascending_sorted ascending_posts_after_spec)

lemma cycle_inputs_distinct:
  "store_inv st \<Longrightarrow> distinct authors
   \<Longrightarrow> distinct (map stamp (concat (map (\<lambda>a. posts_after_spec st a cur) authors)))"
  by (simp add: concat_posts_after_spec distinct_map_filter distinct_stamps_logs)

lemma set_concat_posts_after_spec:
  "set (concat (map (\<lambda>a. posts_after_spec st a cur) authors)) = visible st authors cur"
  by (auto simp: visible_def)

subsection \<open>Correctness of one cycle\<close>

lemma timeline_cycle_fst:
  "store_inv st \<Longrightarrow> fst (timeline_cycle st authors cur)
     = kmerge (map (\<lambda>a. posts_after_spec st a cur) authors)"
  by (simp add: timeline_cycle_def Let_def cycle_inputs_eq)

lemma set_timeline_cycle:
  "store_inv st \<Longrightarrow> set (fst (timeline_cycle st authors cur)) = visible st authors cur"
  by (simp add: timeline_cycle_fst set_concat_posts_after_spec [simplified])

lemma timeline_cycle_eq_spec:
  "store_inv st \<Longrightarrow> distinct authors
   \<Longrightarrow> fst (timeline_cycle st authors cur) = timeline_spec st authors cur"
  unfolding timeline_cycle_fst timeline_spec_def
  by (rule kmerge_eq_sort_key) (simp_all add: cycle_inputs_sorted cycle_inputs_distinct)

lemma ascending_timeline_cycle:
  assumes "store_inv st" "distinct authors"
  shows "ascending stamp (fst (timeline_cycle st authors cur))"
proof -
  let ?xss = "map (\<lambda>a. posts_after_spec st a cur) authors"
  have "sorted (map stamp (kmerge ?xss))"
    using assms(1) by (intro sorted_kmerge cycle_inputs_sorted)
  moreover have "distinct (map stamp (kmerge ?xss))"
    using cycle_inputs_distinct [OF assms]
      mset_eq_imp_distinct_iff [of "map stamp (kmerge ?xss)" "map stamp (concat ?xss)"]
    by simp
  ultimately show ?thesis
    using assms(1) by (simp add: ascending_iff timeline_cycle_fst)
qed

lemma visible_after: "p \<in> visible st authors cur \<Longrightarrow> cur < stamp p"
  by (simp add: visible_def)

lemma timeline_cycle_cursor:
  assumes "store_inv st" "distinct authors" "timeline_cycle st authors cur = (new, cur')"
  shows "cur \<le> cur' \<and> (\<forall>p \<in> set new. cur < stamp p \<and> stamp p \<le> cur')"
proof (cases "new = []")
  case True
  with assms(3) show ?thesis by (auto simp: timeline_cycle_def Let_def)
next
  case False
  from assms(3) have new: "new = fst (timeline_cycle st authors cur)" by simp
  from assms(3) False have c: "cur' = stamp (last new)" by (auto simp: timeline_cycle_def Let_def)
  have asc: "ascending stamp new" using ascending_timeline_cycle [OF assms(1,2)] new by simp
  have after: "\<forall>p \<in> set new. cur < stamp p"
    using set_timeline_cycle [OF assms(1)] new visible_after by blast
  with False have "cur < cur'" by (simp add: c)
  with asc after c show ?thesis by (auto dest: ascending_last_max)
qed

lemma timeline_cycle_cursor_le_clock:
  assumes "store_inv st" "cur \<le> clock st"
  shows "snd (timeline_cycle st authors cur) \<le> clock st"
proof (cases "fst (timeline_cycle st authors cur) = []")
  case True
  with assms(2) show ?thesis by (simp add: timeline_cycle_def Let_def)
next
  case False
  then have "last (fst (timeline_cycle st authors cur)) \<in> visible st authors cur"
    using set_timeline_cycle [OF assms(1)] last_in_set by blast
  then obtain a where "last (fst (timeline_cycle st authors cur)) \<in> set (logs st a)"
    by (auto simp: visible_def)
  with assms(1) have "stamp (last (fst (timeline_cycle st authors cur))) \<le> clock st"
    by (rule store_inv_stamp_le)
  with False show ?thesis by (simp add: timeline_cycle_def Let_def)
qed

lemma timeline_cycle_authors:
  "store_inv st \<Longrightarrow> p \<in> set (fst (timeline_cycle st authors cur)) \<Longrightarrow> author p \<in> set authors"
  by (auto simp: set_timeline_cycle visible_def dest: store_inv_author)

end
