(* ===== verification/Service.thy ===== *)
theory Service
  imports Timeline
begin

text \<open>
  The Service fa\<c>cade (spec \<section>4.5, \<section>6, \<section>7), modelled from the spec: the
  server state owns the three components (directory, follow graph, post store), and
  one handler per RPC drives them and maps the component result onto the status
  taxonomy, the single place where \<open>fail\<close> values become \<open>istatus\<close>. \<open>serve\<close> is
  the RPC surface the client talks to: it answers every request with a reply whose
  status string is \<open>encode_status\<close> of the handler's status, the digit the
  client's \<open>decode_status\<close> reads back. \<open>server_inv\<close> conjoins the components'
  invariants; every request keeps it.
\<close>

record server =
  users :: directory
  edges :: graph
  posts :: store

definition init_server :: server where
  "init_server = \<lparr>users = [], edges = [], posts = empty_store\<rparr>"

definition srv_login :: "username \<Rightarrow> server \<Rightarrow> istatus \<times> server" where
  "srv_login name s =
     (case ensure_user name (users s) of
        Inl e \<Rightarrow> (status_of_fail e, s)
      | Inr (created, d) \<Rightarrow> (if created then SUCCESS else FAILURE_ALREADY_EXISTS, s\<lparr>users := d\<rparr>))"

definition srv_follow :: "username \<Rightarrow> username \<Rightarrow> server \<Rightarrow> istatus \<times> server" where
  "srv_follow a b s =
     (case follow (user_exists (users s)) a b (edges s) of
        Inl e \<Rightarrow> (status_of_fail e, s)
      | Inr g \<Rightarrow> (SUCCESS, s\<lparr>edges := g\<rparr>))"

definition srv_unfollow :: "username \<Rightarrow> username \<Rightarrow> server \<Rightarrow> istatus \<times> server" where
  "srv_unfollow a b s =
     (case unfollow a b (edges s) of
        Inl e \<Rightarrow> (status_of_fail e, s)
      | Inr g \<Rightarrow> (SUCCESS, s\<lparr>edges := g\<rparr>))"

definition srv_list :: "username \<Rightarrow> server \<Rightarrow> istatus \<times> username list \<times> username list" where
  "srv_list a s =
     (if user_exists (users s) a then (SUCCESS, users s, following (edges s) a)
      else (FAILURE_INVALID_USERNAME, [], []))"

definition srv_post :: "username \<Rightarrow> string \<Rightarrow> server \<Rightarrow> istatus \<times> server" where
  "srv_post a txt s =
     (if user_exists (users s) a then (SUCCESS, s\<lparr>posts := snd (append_post a txt (posts s))\<rparr>)
      else (FAILURE_INVALID_USERNAME, s))"

subsection \<open>The RPC surface\<close>

datatype request =
    Req_Login username
  | Req_Follow username username
  | Req_Unfollow username username
  | Req_List username
  | Req_Post username string

datatype reply =
    Reply_status string
  | Reply_list string "username list" "username list"

primrec reply_status :: "reply \<Rightarrow> string" where
  "reply_status (Reply_status st) = st"
| "reply_status (Reply_list st _ _) = st"

fun serve :: "request \<Rightarrow> server \<Rightarrow> reply \<times> server" where
  "serve (Req_Login n) s = (let (r, s') = srv_login n s in (Reply_status (encode_status r), s'))"
| "serve (Req_Follow a b) s = (let (r, s') = srv_follow a b s in (Reply_status (encode_status r), s'))"
| "serve (Req_Unfollow a b) s =
     (let (r, s') = srv_unfollow a b s in (Reply_status (encode_status r), s'))"
| "serve (Req_List a) s = (let (r, all, fl) = srv_list a s in (Reply_list (encode_status r) all fl, s))"
| "serve (Req_Post a txt) s = (let (r, s') = srv_post a txt s in (Reply_status (encode_status r), s'))"

subsection \<open>The server invariant\<close>

definition server_inv :: "server \<Rightarrow> bool" where
  "server_inv s \<longleftrightarrow>
     dir_inv (users s) \<and> graph_inv (user_exists (users s)) (edges s) \<and> store_inv (posts s)
     \<and> (\<forall>a. logs (posts s) a \<noteq> [] \<longrightarrow> user_exists (users s) a)"

lemma server_inv_init: "server_inv init_server"
  by (simp add: server_inv_def init_server_def dir_inv_def graph_inv_def store_inv_empty)

lemma srv_login_inv: "server_inv s \<Longrightarrow> server_inv (snd (srv_login n s))"
  by (auto simp: srv_login_def server_inv_def ensure_user_inv user_exists_mono
      intro: graph_inv_known_mono split: sum.splits)

lemma srv_follow_inv: "server_inv s \<Longrightarrow> server_inv (snd (srv_follow a b s))"
  by (auto simp: srv_follow_def server_inv_def intro: graph_inv_follow split: sum.splits)

lemma srv_unfollow_inv: "server_inv s \<Longrightarrow> server_inv (snd (srv_unfollow a b s))"
  by (auto simp: srv_unfollow_def server_inv_def intro: graph_inv_unfollow split: sum.splits)

lemma srv_post_inv: "server_inv s \<Longrightarrow> server_inv (snd (srv_post a txt s))"
  by (auto simp: srv_post_def server_inv_def store_inv_append)

lemmas srv_inv_rules = srv_login_inv srv_follow_inv srv_unfollow_inv srv_post_inv

lemma serve_inv: "server_inv s \<Longrightarrow> server_inv (snd (serve rq s))"
  by (cases rq) (simp_all add: split_def Let_def srv_inv_rules)

subsection \<open>What the handlers leave alone\<close>

lemma srv_login_posts [simp]: "posts (snd (srv_login n s)) = posts s"
  and srv_login_edges [simp]: "edges (snd (srv_login n s)) = edges s"
  by (auto simp: srv_login_def split: sum.splits)

lemma srv_follow_posts [simp]: "posts (snd (srv_follow a b s)) = posts s"
  and srv_follow_users [simp]: "users (snd (srv_follow a b s)) = users s"
  by (auto simp: srv_follow_def split: sum.splits)

lemma srv_unfollow_posts [simp]: "posts (snd (srv_unfollow a b s)) = posts s"
  and srv_unfollow_users [simp]: "users (snd (srv_unfollow a b s)) = users s"
  by (auto simp: srv_unfollow_def split: sum.splits)

lemma srv_login_users_mono: "set (users s) \<subseteq> set (users (snd (srv_login n s)))"
  by (auto simp: srv_login_def ensure_user_cases split: sum.splits if_splits)

lemma srv_login_ok_registers:
  "fst (srv_login n s) \<in> {SUCCESS, FAILURE_ALREADY_EXISTS} \<Longrightarrow> user_exists (users (snd (srv_login n s))) n"
  by (auto simp: srv_login_def ensure_user_cases user_exists_def split: if_splits)

lemma srv_unfollow_removes_edge: "srv_unfollow a b s = (st, s') \<Longrightarrow> (a, b) \<notin> set (edges s')"
  by (auto simp: srv_unfollow_def unfollow_def split: sum.splits if_splits)

lemma srv_post_clock: "clock (posts s) \<le> clock (posts (snd (srv_post a txt s)))"
  by (simp add: srv_post_def)

lemma srv_post_users [simp]: "users (snd (srv_post a txt s)) = users s"
  and srv_post_edges [simp]: "edges (snd (srv_post a txt s)) = edges s"
  by (simp_all add: srv_post_def)

subsection \<open>Follow and unfollow in closed form\<close>

lemma srv_follow_status:
  "fst (srv_follow a b s) = status_of (follow (user_exists (users s)) a b (edges s))"
  by (simp add: srv_follow_def split: sum.splits)

lemma srv_follow_edges:
  "edges (snd (srv_follow a b s)) = (case follow (user_exists (users s)) a b (edges s) of
     Inl _ \<Rightarrow> edges s | Inr g \<Rightarrow> g)"
  by (simp add: srv_follow_def split: sum.splits)

lemma srv_unfollow_status:
  "fst (srv_unfollow a b s) = status_of (unfollow a b (edges s))"
  by (simp add: srv_unfollow_def split: sum.splits)

lemma srv_unfollow_edges:
  "edges (snd (srv_unfollow a b s)) = (case unfollow a b (edges s) of Inl _ \<Rightarrow> edges s | Inr g \<Rightarrow> g)"
  by (simp add: srv_unfollow_def split: sum.splits)

lemma srv_follow_edge_in:
  "user_exists (users s) a \<Longrightarrow> user_exists (users s) b \<Longrightarrow> a \<noteq> b
   \<Longrightarrow> (a, b) \<in> set (edges (snd (srv_follow a b s)))"
  by (auto simp: srv_follow_edges follow_def)

lemma srv_unfollow_edge_out: "(a, b) \<notin> set (edges (snd (srv_unfollow a b s)))"
  by (auto simp: srv_unfollow_edges unfollow_def split: sum.splits)

end
