(* ===== verification/TscClient.thy ===== *)
theory TscClient
  imports Service
begin

text \<open>
  The \<open>Client\<close> class of src/tsc.cc and the interface it talks through.
  \<open>Client\<close> is the record of the class's three strings and its stub \<open>stub_\<close>;
  \<open>new_client\<close> is its constructor. What the program writes to \<open>std::cout\<close> is not
  a member of the class but a global stream; it is the \<open>terminal\<close>, the sequence
  of strings written so far, passed along explicitly. \<open>ireply\<close> is the
  \<open>IReply\<close> struct of client.h.

  The RPC stub is an interface: a call function sends a request to a server state
  (of any type) and returns the call's \<open>grpc::Status\<close>, the \<open>status\<close> field of the
  \<open>ReplyStatus\<close> message it filled (the empty string, protobuf's default, when the
  call failed before a reply arrived) and the server's next state. The lemmas of
  the client theories hold for every implementation of the interface; \<open>rpc_serve\<close>
  binds it to the modelled server and \<open>rpc_down\<close> to an unreachable one.
\<close>

datatype grpc_status = Grpc_OK | Grpc_UNAVAILABLE

definition rpc_serve :: "request \<Rightarrow> server \<Rightarrow> (grpc_status \<times> string) \<times> server" where
  "rpc_serve rq s = (let (r, s1) = serve rq s in ((Grpc_OK, reply_status r), s1))"

definition rpc_down :: "request \<Rightarrow> 'srv \<Rightarrow> (grpc_status \<times> string) \<times> 'srv" where
  "rpc_down rq s = ((Grpc_UNAVAILABLE, []), s)"

abbreviation endl :: string where
  "endl \<equiv> [CHR 0x0A]"

text \<open>
  \<open>stub_\<close> is a \<open>std::unique_ptr\<close>: null (\<open>None\<close>) until \<open>connectTo\<close> creates a
  stub on a channel to \<open>hostname:port\<close>, which the model records by that address.
\<close>

record Client =
  hostname :: string
  username :: username
  port :: string
  stub :: "string option"

type_synonym terminal = "string list"

text \<open>\<open>IReply\<close> of client.h: what \<open>processCommand\<close> hands back to \<open>run_client\<close>.\<close>

record ireply =
  grpc_status :: grpc_status
  comm_status :: istatus
  all_users :: "username list"
  following_users :: "username list"

text \<open>The constructor: the three strings, the stub not created yet.\<close>

definition new_client :: "string \<Rightarrow> username \<Rightarrow> string \<Rightarrow> Client" where
  "new_client h u p = \<lparr>hostname = h, username = u, port = p, stub = None\<rparr>"

subsection \<open>The interface bound to the modelled server\<close>

lemma decode_status_empty [simp]: "decode_status [] = SUCCESS"
  by (simp add: decode_status_def)

lemma decode_encode_status [simp]: "decode_status (encode_status r) = r"
  by (cases r) (simp_all add: decode_status_def)

lemma rpc_serve_login [simp]:
  "rpc_serve (Req_Login n) s = ((Grpc_OK, encode_status (fst (srv_login n s))), snd (srv_login n s))"
  and rpc_serve_follow [simp]:
  "rpc_serve (Req_Follow a b) s = ((Grpc_OK, encode_status (fst (srv_follow a b s))), snd (srv_follow a b s))"
  and rpc_serve_unfollow [simp]:
  "rpc_serve (Req_Unfollow a b) s =
     ((Grpc_OK, encode_status (fst (srv_unfollow a b s))), snd (srv_unfollow a b s))"
  by (simp_all add: rpc_serve_def split_def Let_def)

lemma rpc_down_simp [simp]: "rpc_down rq s = ((Grpc_UNAVAILABLE, []), s)"
  by (simp add: rpc_down_def)

lemma rpc_serve_inv: "server_inv s \<Longrightarrow> server_inv (snd (rpc_serve rq s))"
  by (simp add: rpc_serve_def split_def Let_def serve_inv)

end
