(* ===== verification/ClientLogin.thy ===== *)
theory ClientLogin
  imports TscClient
begin

text \<open>
  \<open>Client::connectTo\<close> of src/tsc.cc, the only method that changes the client
  object: it creates the stub on the channel to \<open>hostname:port\<close>, sends the
  \<open>Login\<close> request and maps the reply status to its return value and message.
\<close>

text \<open>
  \<open>stub_target\<close> is the target of the channel the stub is created on, the
  string \<open>hostname + ":" + port\<close>; the model records the stub by it.
\<close>

definition stub_target :: "Client \<Rightarrow> string" where
  "stub_target c = hostname c @ '':'' @ port c"

text \<open>
  \<open>login_outcome\<close> is the comparison chain on \<open>login_status.status()\<close>: the value
  \<open>connectTo\<close> returns and the line it prints. The \<open>grpc::Status\<close> of the call
  is stored in a local and never read.
\<close>

definition login_outcome :: "username \<Rightarrow> string \<Rightarrow> int \<times> string" where
  "login_outcome u st =
     (if st = ''1'' then (1, u @ '': successfully logged in'' @ endl)
      else if st = ''0'' then (1, ''new user created'' @ endl)
      else (-1, ''could not establish a connection to host'' @ endl))"

definition connectTo ::
    "(request \<Rightarrow> 'srv \<Rightarrow> (grpc_status \<times> string) \<times> 'srv) \<Rightarrow>
      Client \<Rightarrow> terminal \<Rightarrow> 'srv \<Rightarrow> int \<times> Client \<times> terminal \<times> 'srv" where
  "connectTo call c t s =
     (let c1 = c\<lparr>stub := Some (stub_target c)\<rparr>;
          ((g, st), s1) = call (Req_Login (username c1)) s;
          (ret, msg) = login_outcome (username c1) st
      in (ret, c1, t @ [msg], s1))"

declare stub_target_def [simp]

end
