(* ===== verification/ClientCommand.thy ===== *)
theory ClientCommand
  imports TscClient
begin

text \<open>
  \<open>Client::processCommand\<close> of src/tsc.cc: the \<open>strncmp\<close> dispatch on the
  command line, one definition per branch of its \<open>if\<close> chain, and the tail
  shared by the branches. The lemmas give each branch's result, the null-stub
  failure, and that a command reaches the server through at most one call, so that
  the server invariant is kept.
\<close>

text \<open>
  Each branch of the \<open>if\<close> chain fills the call's \<open>grpc::Status\<close> and the
  \<open>ReplyStatus\<close> message (left at \<open>Grpc_OK\<close> and the empty string when the
  branch makes no call). \<open>input.substr(7)\<close> is evaluated before anything is printed
  and throws \<open>std::out_of_range\<close> on an input of six characters; the exception
  leaves \<open>processCommand\<close>. The target name reaches \<open>set_follow\<close> as a
  \<open>const char*\<close>, so it is cut at its first NUL. The call goes through
  \<open>stub_\<close> after the echo is printed; through a null stub it is \<open>Null_stub\<close>.
\<close>

definition follow_branch ::
    "(request \<Rightarrow> 'srv \<Rightarrow> (grpc_status \<times> string) \<times> 'srv) \<Rightarrow> Client \<Rightarrow> string \<Rightarrow>
      terminal \<Rightarrow> 'srv \<Rightarrow> cpp_error + (grpc_status \<times> string) \<times> terminal \<times> 'srv" where
  "follow_branch call c input t s =
     (case substr_from input 7 of
        Inl e \<Rightarrow> Inl e
      | Inr target \<Rightarrow>
          (let t1 = t @ [''follow command'', cstr input]
           in case stub c of
                None \<Rightarrow> Inl Null_stub
              | Some _ \<Rightarrow>
                  (let (r, s1) = call (Req_Follow (username c) (cstr target)) s in Inr (r, t1, s1))))"

definition unfollow_branch ::
    "(request \<Rightarrow> 'srv \<Rightarrow> (grpc_status \<times> string) \<times> 'srv) \<Rightarrow> Client \<Rightarrow> string \<Rightarrow>
      terminal \<Rightarrow> 'srv \<Rightarrow> cpp_error + (grpc_status \<times> string) \<times> terminal \<times> 'srv" where
  "unfollow_branch call c input t s =
     (case substr_from input 9 of
        Inl e \<Rightarrow> Inl e
      | Inr target \<Rightarrow>
          (let t1 = t @ [''unfollow command'']
           in case stub c of
                None \<Rightarrow> Inl Null_stub
              | Some _ \<Rightarrow>
                  (let (r, s1) = call (Req_Unfollow (username c) (cstr target)) s in Inr (r, t1, s1))))"

definition list_branch :: "terminal \<Rightarrow> 'srv \<Rightarrow> cpp_error + (grpc_status \<times> string) \<times> terminal \<times> 'srv" where
  "list_branch t s = Inr ((Grpc_OK, []), t @ [''list command''], s)"

definition timeline_branch :: "terminal \<Rightarrow> 'srv \<Rightarrow> cpp_error + (grpc_status \<times> string) \<times> terminal \<times> 'srv" where
  "timeline_branch t s = Inr ((Grpc_OK, []), t @ [''timeline command''], s)"

text \<open>
  The tail shared by every branch: the status string is decoded into
  \<open>comm_status\<close> and printed, and the \<open>IReply\<close> is returned with
  \<open>all_users\<close> and \<open>following_users\<close> never set.
\<close>

definition command_reply :: "grpc_status \<Rightarrow> string \<Rightarrow> terminal \<Rightarrow> 'srv \<Rightarrow> ireply \<times> terminal \<times> 'srv" where
  "command_reply g st t s =
     (\<lparr>grpc_status = g, comm_status = decode_status st, all_users = [], following_users = []\<rparr>,
      t @ [st], s)"

definition processCommand ::
    "(request \<Rightarrow> 'srv \<Rightarrow> (grpc_status \<times> string) \<times> 'srv) \<Rightarrow> Client \<Rightarrow> string \<Rightarrow>
      terminal \<Rightarrow> 'srv \<Rightarrow> cpp_error + ireply \<times> terminal \<times> 'srv" where
  "processCommand call c input t s =
     (let br =
        (if strncmp_eq input ''FOLLOW'' 6 then follow_branch call c input t s
         else if strncmp_eq input ''UNFOLLOW'' 8 then unfollow_branch call c input t s
         else if strncmp_eq input ''LIST'' 4 then list_branch t s
         else if strncmp_eq input ''TIMELINE'' 8 then timeline_branch t s
         else Inr ((Grpc_OK, []), t, s))
      in case br of
           Inl e \<Rightarrow> Inl e
         | Inr ((g, st), t1, s1) \<Rightarrow> Inr (command_reply g st t1 s1))"

subsection \<open>The branches of processCommand\<close>

lemma command_reply_fields [simp]:
  "grpc_status (fst (command_reply g st t s)) = g"
  "comm_status (fst (command_reply g st t s)) = decode_status st"
  "all_users (fst (command_reply g st t s)) = []"
  "following_users (fst (command_reply g st t s)) = []"
  "fst (snd (command_reply g st t s)) = t @ [st]"
  "snd (snd (command_reply g st t s)) = s"
  by (simp_all add: command_reply_def)

text \<open>
  Every input whose C string starts with \<open>FOLLOW\<close> and that has a seventh
  character takes the follow branch, and that seventh character is dropped whatever it
  is: the target is the text from the eighth character on.
\<close>

lemma process_command_follow_any:
  assumes "stub c \<noteq> None"
  shows "processCommand call c (''FOLLOW'' @ x # b) t s =
     (let ((g, st), s1) = call (Req_Follow (username c) (cstr b)) s
      in Inr (command_reply g st (t @ [''follow command'', cstr (''FOLLOW'' @ x # b)]) s1))"
  using assms
  by (auto simp: processCommand_def follow_branch_def strncmp_eq_def split_def Let_def
      split: option.split)

lemma process_command_follow:
  assumes "stub c \<noteq> None" "CHR 0x00 \<notin> set b"
  shows "processCommand call c (''FOLLOW '' @ b) t s =
     (let ((g, st), s1) = call (Req_Follow (username c) b) s
      in Inr (command_reply g st (t @ [''follow command'', ''FOLLOW '' @ b]) s1))"
  using assms process_command_follow_any [OF assms(1), where x = "CHR '' ''" and b = b]
  by (simp add: cstr_append)

lemma process_command_unfollow:
  assumes "stub c \<noteq> None" "CHR 0x00 \<notin> set b"
  shows "processCommand call c (''UNFOLLOW '' @ b) t s =
     (let ((g, st), s1) = call (Req_Unfollow (username c) b) s
      in Inr (command_reply g st (t @ [''unfollow command'']) s1))"
  using assms
  by (auto simp: processCommand_def unfollow_branch_def strncmp_eq_def split_def Let_def cstr_append
      split: option.split)

lemma process_command_list:
  "processCommand call c (''LIST'' @ rest) t s = Inr (command_reply Grpc_OK [] (t @ [''list command'']) s)"
  by (simp add: processCommand_def strncmp_eq_def list_branch_def)

lemma process_command_timeline:
  "processCommand call c ''TIMELINE'' t s = Inr (command_reply Grpc_OK [] (t @ [''timeline command'']) s)"
  by (simp add: processCommand_def strncmp_eq_def timeline_branch_def)

lemma process_command_null_stub:
  "processCommand call c input t s = Inl Null_stub \<Longrightarrow> stub c = None"
  by (auto simp: processCommand_def follow_branch_def unfollow_branch_def list_branch_def
      timeline_branch_def split_def Let_def split: if_splits sum.splits option.splits)

subsection \<open>Server effects\<close>

lemma follow_branch_srv:
  "follow_branch call c input t s = Inr (r, t1, s1) \<Longrightarrow> \<exists>rq. s1 = snd (call rq s)"
  by (auto simp: follow_branch_def split_def Let_def split: sum.splits option.splits)

lemma unfollow_branch_srv:
  "unfollow_branch call c input t s = Inr (r, t1, s1) \<Longrightarrow> \<exists>rq. s1 = snd (call rq s)"
  by (auto simp: unfollow_branch_def split_def Let_def split: sum.splits option.splits)

text \<open>
  Whatever the input, \<open>processCommand\<close> reaches the server through at most one
  call of the stub: the server state it leaves is the old one or the result of one
  request.
\<close>

lemma process_command_one_call:
  assumes "processCommand call c input t s = Inr (r, t1, s1)"
  shows "s1 = s \<or> (\<exists>rq. s1 = snd (call rq s))"
proof -
  obtain br where br: "br =
        (if strncmp_eq input ''FOLLOW'' 6 then follow_branch call c input t s
         else if strncmp_eq input ''UNFOLLOW'' 8 then unfollow_branch call c input t s
         else if strncmp_eq input ''LIST'' 4 then list_branch t s
         else if strncmp_eq input ''TIMELINE'' 8 then timeline_branch t s
         else Inr ((Grpc_OK, []), t, s))" by simp
  from assms obtain g st t0 where b: "br = Inr ((g, st), t0, s1)"
    by (auto simp: processCommand_def br [symmetric] command_reply_def split: sum.splits)
  with br show ?thesis
    by (auto simp: list_branch_def timeline_branch_def split: if_splits
        dest: follow_branch_srv [OF sym] unfollow_branch_srv [OF sym])
qed

lemma process_command_server_inv:
  "server_inv s \<Longrightarrow> processCommand rpc_serve c input t s = Inr (r, t1, s1) \<Longrightarrow> server_inv s1"
  by (auto dest!: process_command_one_call intro: rpc_serve_inv)

end
