(* ===== verification/ClientTimeline.thy ===== *)
theory ClientTimeline
  imports TscClient
begin

text \<open>
  \<open>Client::processTimeline\<close> of src/tsc.cc. Its body is a comment: the
  function returns at once, without a call to the server and without output.
\<close>

definition processTimeline :: "Client \<Rightarrow> terminal \<Rightarrow> 'srv \<Rightarrow> terminal \<times> 'srv" where
  "processTimeline c t s = (t, s)"

end
