(* ===== verification/System.thy ===== *)
theory System
  imports ClientLogin ClientCommand ClientTimeline
begin

text \<open>
  Many clients against one server (spec \<section>4.5, \<section>5). Each client process runs
  the code of src/tsc.cc and writes to its own terminal: it starts disconnected,
  \<open>connectTo\<close> creates its stub and logs it in (or ends the process when it returns
  -1, as \<open>run_client\<close> does), then every command line goes through
  \<open>processCommand\<close>; a successful \<open>TIMELINE\<close> enters timeline mode through
  \<open>processTimeline\<close>, and an exception escaping \<open>processCommand\<close> (or a call
  through a null stub) terminates the process. \<open>processTimeline\<close> returns at once
  because its body is commented out; what \<open>run_client\<close> does then is in client.h,
  which is not in the repository, and the model follows the comment of tsc.cc 226--227:
  there is no way back from timeline mode. Which process moves next is not determined:
  \<open>sys_step\<close> is a relation, one rule per kind of move, and any interleaving of the
  processes' moves is a run. \<open>sys_inv\<close> is the invariant of all reachable states:
  the server is well formed, and every process in command mode is logged in as a
  registered user.
\<close>

datatype mode = Cl_disconnected | Cl_command | Cl_timeline | Cl_terminated

record proc =
  cl :: Client
  console :: terminal
  mode :: mode

record sys =
  srv :: server
  procs :: "proc list"

definition init_sys :: "Client list \<Rightarrow> sys" where
  "init_sys cs = \<lparr>srv = init_server, procs = map (\<lambda>c. \<lparr>cl = c, console = [], mode = Cl_disconnected\<rparr>) cs\<rparr>"

definition enters_timeline :: "string \<Rightarrow> ireply \<Rightarrow> bool" where
  "enters_timeline input r \<longleftrightarrow> input = ''TIMELINE'' \<and> grpc_status r = Grpc_OK \<and> comm_status r = SUCCESS"

inductive sys_step :: "sys \<Rightarrow> sys \<Rightarrow> bool" where
  connect: "\<lbrakk>i < length (procs s); mode (procs s ! i) = Cl_disconnected;
      connectTo rpc_serve (cl (procs s ! i)) (console (procs s ! i)) (srv s) = (ret, c1, t1, s1)\<rbrakk>
    \<Longrightarrow> sys_step s \<lparr>srv = s1, procs = (procs s)[i := \<lparr>cl = c1, console = t1,
          mode = (if ret < 0 then Cl_terminated else Cl_command)\<rparr>]\<rparr>"
| command: "\<lbrakk>i < length (procs s); mode (procs s ! i) = Cl_command;
      processCommand rpc_serve (cl (procs s ! i)) input (console (procs s ! i)) (srv s) = Inr (r, t1, s1);
      \<not> enters_timeline input r\<rbrakk>
    \<Longrightarrow> sys_step s \<lparr>srv = s1, procs = (procs s)[i := (procs s ! i)\<lparr>console := t1\<rparr>]\<rparr>"
| timeline: "\<lbrakk>i < length (procs s); mode (procs s ! i) = Cl_command;
      processCommand rpc_serve (cl (procs s ! i)) input (console (procs s ! i)) (srv s) = Inr (r, t1, s1);
      enters_timeline input r; processTimeline (cl (procs s ! i)) t1 s1 = (t2, s2)\<rbrakk>
    \<Longrightarrow> sys_step s \<lparr>srv = s2, procs = (procs s)[i := (procs s ! i)\<lparr>console := t2, mode := Cl_timeline\<rparr>]\<rparr>"
| crash: "\<lbrakk>i < length (procs s); mode (procs s ! i) = Cl_command;
      processCommand rpc_serve (cl (procs s ! i)) input (console (procs s ! i)) (srv s) = Inl e\<rbrakk>
    \<Longrightarrow> sys_step s \<lparr>srv = srv s, procs = (procs s)[i := (procs s ! i)\<lparr>mode := Cl_terminated\<rparr>]\<rparr>"

inductive reachable :: "Client list \<Rightarrow> sys \<Rightarrow> bool" for cs where
  init: "reachable cs (init_sys cs)"
| step: "reachable cs s \<Longrightarrow> sys_step s t \<Longrightarrow> reachable cs t"

inductive_cases sys_stepE: "sys_step s t"

definition proc_ok :: "server \<Rightarrow> proc \<Rightarrow> bool" where
  "proc_ok s p \<longleftrightarrow> mode p = Cl_command \<longrightarrow> user_exists (users s) (username (cl p))"

definition sys_inv :: "sys \<Rightarrow> bool" where
  "sys_inv s \<longleftrightarrow> server_inv (srv s) \<and> (\<forall>p \<in> set (procs s). proc_ok (srv s) p)"

subsection \<open>What one move does to the server's directory\<close>

lemma rpc_serve_users_mono: "set (users s) \<subseteq> set (users (snd (rpc_serve rq s)))"
  by (cases rq) (auto simp: srv_login_users_mono srv_list_def rpc_serve_def split_def Let_def)

lemma process_command_users_mono:
  "processCommand rpc_serve c input t s = Inr (r, t1, s1) \<Longrightarrow> set (users s) \<subseteq> set (users s1)"
  by (auto dest!: process_command_one_call dest: rpc_serve_users_mono [THEN subsetD])

lemma connect_to_serve_eq:
  "connectTo rpc_serve c t s = (ret, c1, t1, s1) \<Longrightarrow>
     s1 = snd (srv_login (username c) s) \<and> c1 = c\<lparr>stub := Some (hostname c @ '':'' @ port c)\<rparr>
     \<and> ret = (if fst (srv_login (username c) s) \<in> {SUCCESS, FAILURE_ALREADY_EXISTS} then 1 else -1)"
proof -
  have codes: "encode_status x = ''1'' \<longleftrightarrow> x = FAILURE_ALREADY_EXISTS"
    "encode_status x = ''0'' \<longleftrightarrow> x = SUCCESS" for x
    by (cases x; simp)+
  assume "connectTo rpc_serve c t s = (ret, c1, t1, s1)"
  then show ?thesis
    by (auto simp: connectTo_def login_outcome_def split_def Let_def codes)
qed

lemma process_timeline_eq [simp]: "processTimeline c t s = (t2, s2) \<longleftrightarrow> t2 = t \<and> s2 = s"
  by (auto simp: processTimeline_def)

subsection \<open>The invariant\<close>

lemma proc_ok_mono:
  "proc_ok s p \<Longrightarrow> set (users s) \<subseteq> set (users s1) \<Longrightarrow> proc_ok s1 p"
  by (auto simp: proc_ok_def user_exists_def)

lemma proc_ok_not_command [simp]: "mode p \<noteq> Cl_command \<Longrightarrow> proc_ok s p"
  by (simp add: proc_ok_def)

lemma sys_inv_init: "sys_inv (init_sys cs)"
  by (auto simp: sys_inv_def init_sys_def server_inv_init)

lemma sys_inv_update:
  assumes "sys_inv s" "server_inv s1" "set (users (srv s)) \<subseteq> set (users s1)" "proc_ok s1 q"
  shows "sys_inv \<lparr>srv = s1, procs = (procs s)[i := q]\<rparr>"
proof -
  have "\<forall>p \<in> set (procs s). proc_ok s1 p"
    using assms(1,3) by (auto simp: sys_inv_def intro: proc_ok_mono)
  with assms(4) have "\<forall>p \<in> set ((procs s)[i := q]). proc_ok s1 p"
    by (auto dest: set_update_subset_insert [THEN subsetD])
  with assms(2) show ?thesis by (simp add: sys_inv_def)
qed

lemma sys_inv_proc:
  "sys_inv s \<Longrightarrow> i < length (procs s) \<Longrightarrow> proc_ok (srv s) (procs s ! i)"
  by (simp add: sys_inv_def)

lemma sys_step_inv: "sys_step s t \<Longrightarrow> sys_inv s \<Longrightarrow> sys_inv t"
proof (induction rule: sys_step.induct)
  case (connect i s ret c1 t1 s1)
  note eq = connect_to_serve_eq [OF connect.hyps(3)]
  have si: "server_inv s1" using connect.prems eq by (simp add: sys_inv_def srv_login_inv)
  have mono: "set (users (srv s)) \<subseteq> set (users s1)" using eq srv_login_users_mono by simp
  have new: "0 \<le> ret \<Longrightarrow> user_exists (users s1) (username c1)"
    using eq srv_login_ok_registers by (auto split: if_splits)
  have "proc_ok s1 \<lparr>cl = c1, console = t1, mode = if ret < 0 then Cl_terminated else Cl_command\<rparr>"
    using new eq by (auto simp: proc_ok_def)
  with connect.prems si mono show ?case by (rule sys_inv_update)
next
  case (command i s input r t1 s1)
  have si: "server_inv s1"
    using command.prems command.hyps(3) by (auto simp: sys_inv_def intro: process_command_server_inv)
  have mono: "set (users (srv s)) \<subseteq> set (users s1)"
    using command.hyps(3) by (rule process_command_users_mono)
  have "proc_ok s1 ((procs s ! i)\<lparr>console := t1\<rparr>)"
    using sys_inv_proc [OF command.prems command.hyps(1)] mono by (auto simp: proc_ok_def user_exists_def)
  with command.prems si mono show ?case by (rule sys_inv_update)
next
  case (timeline i s input r t1 s1 t2 s2)
  have si: "server_inv s1"
    using timeline.prems timeline.hyps(3) by (auto simp: sys_inv_def intro: process_command_server_inv)
  have mono: "set (users (srv s)) \<subseteq> set (users s1)"
    using timeline.hyps(3) by (rule process_command_users_mono)
  show ?case using timeline.prems timeline.hyps(5) si mono by (intro sys_inv_update) auto
next
  case (crash i s input e)
  then show ?case by (intro sys_inv_update) (auto simp: sys_inv_def)
qed

lemma reachable_sys_inv: "reachable cs s \<Longrightarrow> sys_inv s"
  by (induction rule: reachable.induct) (auto intro: sys_inv_init sys_step_inv)

end
