(* ===== verification/TscMain.thy ===== *)
theory TscMain
  imports TscClient
begin

text \<open>
  The option handling of \<open>main\<close> in src/tsc.cc. \<open>main_opts\<close> is the
  \<open>getopt\<close> loop, taken over the sequence of (option, optarg) pairs that
  \<open>getopt\<close> returns; \<open>client_of_args\<close> is \<open>main\<close> up to the constructor call.
  \<open>main_opts_eq\<close> gives the loop in closed form: each option's last occurrence
  wins and every unknown option prints one error line.
\<close>

fun main_opts :: "(char \<times> string) list \<Rightarrow> string \<times> string \<times> string \<Rightarrow> string list
                    \<Rightarrow> (string \<times> string \<times> string) \<times> string list" where
  "main_opts [] cfg err = (cfg, err)"
| "main_opts ((c, arg) # os) (h, u, p) err =
     (if c = CHR ''h'' then main_opts os (arg, u, p) err
      else if c = CHR ''u'' then main_opts os (h, arg, p) err
      else if c = CHR ''p'' then main_opts os (h, u, arg) err
      else main_opts os (h, u, p) (err @ [''Invalid Command Line Argument'' @ endl]))"

definition client_of_args :: "(char \<times> string) list \<Rightarrow> Client \<times> string list" where
  "client_of_args opts =
     (let ((h, u, p), err) = main_opts opts (''localhost'', ''default'', ''3010'') []
      in (new_client h u p, err))"

text \<open>The value an option ends up with: its last occurrence, else the default.\<close>

definition opt_value :: "char \<Rightarrow> (char \<times> string) list \<Rightarrow> string \<Rightarrow> string" where
  "opt_value c os d = fold (\<lambda>(c1, a) v. if c1 = c then a else v) os d"

definition bad_opts :: "(char \<times> string) list \<Rightarrow> nat" where
  "bad_opts os = length (filter (\<lambda>x. fst x \<notin> {CHR ''h'', CHR ''u'', CHR ''p''}) os)"

subsection \<open>The option loop in closed form\<close>

lemma main_opts_eq:
  "main_opts os (h, u, p) err =
     ((opt_value CHR ''h'' os h, opt_value CHR ''u'' os u, opt_value CHR ''p'' os p),
      err @ replicate (bad_opts os) (''Invalid Command Line Argument'' @ endl))"
proof (induction os arbitrary: h u p err)
  case Nil
  then show ?case by (simp add: opt_value_def bad_opts_def)
next
  case (Cons x os)
  obtain c a where x: "x = (c, a)" by fastforce
  show ?case
    using Cons.IH by (simp add: x opt_value_def bad_opts_def replicate_app_Cons_same)
qed

end
