(* ===== verification/Run.thy ===== *)
theory Run
  imports System TscMain
begin

text \<open>
  One client process from start to end. \<open>run_client\<close> is the loop of client.h that
  \<open>main\<close> hands control to (client.h is not in the repository; the loop is modelled
  as tsc.cc's comments and the spec describe it): \<open>connectTo\<close>, the end of the
  program when it returns -1, then one command line after another through
  \<open>processCommand\<close> until an exception escapes, a successful \<open>TIMELINE\<close> enters
  timeline mode through \<open>processTimeline\<close>, or the input ends. In
  \<open>command_loop\<close> the command lines are a finite list, so the loop is structural
  recursion and always returns an \<open>outcome\<close>; \<open>client_loop\<close> is the same loop
  over an endless input stream, as \<open>while (1)\<close> runs it, a partial function whose
  value is \<open>None\<close> when it never returns. The two agree: the endless loop returns
  a result exactly when the finite loop returns it on a prefix of the stream.
  \<open>main\<close> is tsc.cc's \<open>main\<close>: the options, the constructor, then
  \<open>run_client\<close>.
\<close>

text \<open>
  \<open>run_client\<close> (client.h) reads one command line after another and hands each to
  \<open>processCommand\<close>; an exception escaping \<open>processCommand\<close> ends the program.
  \<open>run_commands\<close> is that loop over a given sequence of command lines, collecting
  the replies.
\<close>

fun run_commands ::
    "(request \<Rightarrow> 'srv \<Rightarrow> (grpc_status \<times> string) \<times> 'srv) \<Rightarrow> Client \<Rightarrow> string list \<Rightarrow>
      terminal \<Rightarrow> 'srv \<Rightarrow> cpp_error + ireply list \<times> terminal \<times> 'srv" where
  "run_commands call c [] t s = Inr ([], t, s)"
| "run_commands call c (i # rest) t s =
     (case processCommand call c i t s of
        Inl e \<Rightarrow> Inl e
      | Inr (r, t1, s1) \<Rightarrow>
          (case run_commands call c rest t1 s1 of
             Inl e \<Rightarrow> Inl e
           | Inr (rs, t2, s2) \<Rightarrow> Inr (r # rs, t2, s2)))"

datatype outcome = Login_failed | Crashed cpp_error | In_timeline | Input_ended

fun command_loop ::
    "(request \<Rightarrow> 'srv \<Rightarrow> (grpc_status \<times> string) \<times> 'srv) \<Rightarrow> Client \<Rightarrow> string list \<Rightarrow>
      terminal \<Rightarrow> 'srv \<Rightarrow> outcome \<times> terminal \<times> 'srv" where
  "command_loop call c [] t s = (Input_ended, t, s)"
| "command_loop call c (l # ls) t s =
     (case processCommand call c l t s of
        Inl e \<Rightarrow> (Crashed e, t, s)
      | Inr (r, t1, s1) \<Rightarrow>
          (if enters_timeline l r
           then (let (t2, s2) = processTimeline c t1 s1 in (In_timeline, t2, s2))
           else command_loop call c ls t1 s1))"

definition run_client ::
    "(request \<Rightarrow> 'srv \<Rightarrow> (grpc_status \<times> string) \<times> 'srv) \<Rightarrow> Client \<Rightarrow> string list \<Rightarrow>
      terminal \<Rightarrow> 'srv \<Rightarrow> outcome \<times> terminal \<times> 'srv" where
  "run_client call c ls t s =
     (let (ret, c1, t1, s1) = connectTo call c t s
      in if ret < 0 then (Login_failed, t1, s1) else command_loop call c1 ls t1 s1)"

definition main ::
    "(request \<Rightarrow> 'srv \<Rightarrow> (grpc_status \<times> string) \<times> 'srv) \<Rightarrow> (char \<times> string) list \<Rightarrow> string list \<Rightarrow>
      'srv \<Rightarrow> string list \<times> outcome \<times> terminal \<times> 'srv" where
  "main call opts ls s = (let (c, err) = client_of_args opts in (err, run_client call c ls [] s))"

text \<open>
  The loop of \<open>run_client\<close> as client.h runs it: \<open>while (1)\<close> over the lines of
  standard input, here an endless stream \<open>inp\<close> read from position \<open>n\<close> on. It
  leaves only when an exception escapes \<open>processCommand\<close> or a successful
  \<open>TIMELINE\<close> enters timeline mode; on an input with neither it runs for ever,
  which is the value \<open>None\<close>.
\<close>

partial_function (option) client_loop ::
    "(request \<Rightarrow> 'srv \<Rightarrow> (grpc_status \<times> string) \<times> 'srv) \<Rightarrow> Client \<Rightarrow> (nat \<Rightarrow> string) \<Rightarrow> nat \<Rightarrow>
      terminal \<Rightarrow> 'srv \<Rightarrow> (outcome \<times> terminal \<times> 'srv) option" where
  "client_loop call c inp n t s =
     (case processCommand call c (inp n) t s of
        Inl e \<Rightarrow> Some (Crashed e, t, s)
      | Inr (r, t1, s1) \<Rightarrow>
          (if enters_timeline (inp n) r
           then (let (t2, s2) = processTimeline c t1 s1 in Some (In_timeline, t2, s2))
           else client_loop call c inp (Suc n) t1 s1))"

subsection \<open>The endless loop and the loop over a prefix\<close>

text \<open>
  \<open>client_loop\<close> returns exactly when \<open>command_loop\<close>, run over some finite prefix
  of the stream, stops before the prefix ends; on a stream of \<open>LIST\<close> lines it
  never returns.
\<close>

lemma command_loop_client_loop:
  "command_loop call c (map inp [n..<n + m]) t s = (res, t1, s1) \<Longrightarrow> res \<noteq> Input_ended
   \<Longrightarrow> client_loop call c inp n t s = Some (res, t1, s1)"
proof (induction m arbitrary: n t s)
  case 0
  then show ?case by simp
next
  case (Suc m)
  have "command_loop call c (inp n # map inp [Suc n..<Suc n + m]) t s = (res, t1, s1)"
    using Suc.prems(1) by (simp only: upt_map_Suc)
  then show ?case
    using Suc.prems(2) Suc.IH [of "Suc n"]
    by (subst client_loop.simps) (auto simp del: upt_Suc split: sum.splits prod.splits if_splits)
qed

lemma client_loop_command_loop:
  assumes "client_loop call c inp n t s = Some y"
  shows "\<exists>m. command_loop call c (map inp [n..<n + m]) t s = y \<and> fst y \<noteq> Input_ended"
  using assms
proof (induction call c inp n t s y rule: client_loop.raw_induct [rotated, consumes 1])
  case (1 loop call c inp n t s y)
  show ?case
  proof (cases "processCommand call c (inp n) t s")
    case (Inl e)
    with 1(2) have "y = (Crashed e, t, s)" by simp
    then show ?thesis using Inl by (intro exI [of _ 1]) simp
  next
    case (Inr out)
    then obtain r t1 s1 where pc: "processCommand call c (inp n) t s = Inr (r, t1, s1)"
      by (metis prod_cases3)
    show ?thesis
    proof (cases "enters_timeline (inp n) r")
      case True
      with pc 1(2) have "y = (In_timeline, t1, s1)" by (simp add: processTimeline_def)
      then show ?thesis using pc True by (intro exI [of _ 1]) (simp add: processTimeline_def)
    next
      case False
      with pc 1(2) have "loop call c inp (Suc n) t1 s1 = Some y" by simp
      from 1(1) [OF this] obtain m where
        "command_loop call c (map inp [Suc n..<Suc n + m]) t1 s1 = y" "fst y \<noteq> Input_ended"
        by blast
      then show ?thesis using pc False
        by (intro exI [of _ "Suc m"]) (simp add: upt_conv_Cons del: upt_Suc)
    qed
  qed
qed

lemma command_loop_list:
  "fst (command_loop call c (replicate m ''LIST'') t s) = Input_ended"
proof (induction m arbitrary: t s)
  case 0
  then show ?case by simp
next
  case (Suc m)
  then show ?case
    using process_command_list [of call c "[]" t s]
    by (simp add: enters_timeline_def command_reply_def)
qed

lemma client_loop_list_forever: "client_loop call c (\<lambda>_. ''LIST'') n t s = None"
proof (rule ccontr)
  assume "client_loop call c (\<lambda>_. ''LIST'') n t s \<noteq> None"
  then obtain y where "client_loop call c (\<lambda>_. ''LIST'') n t s = Some y" by blast
  from client_loop_command_loop [OF this] obtain m where
    "command_loop call c (replicate m ''LIST'') t s = y" "fst y \<noteq> Input_ended"
    by (auto simp: map_replicate_const)
  with command_loop_list show False by metis
qed

end
