(* ===== verification/Session.thy ===== *)
theory Session
  imports Service
begin

text \<open>
  The server's sessions (spec \<section>3 TimelineCursor, \<section>4.5, \<section>5), modelled from the
  spec. A session is one logged-in connection: its user, its phase (command mode, or
  streaming once it called GetTimeline, with no way back), its delivery cursor and,
  as ghost state, every post its stream has delivered so far. \<open>world_step\<close> is one
  event of one session against the shared server (\<open>None\<close> when the event is not
  allowed in the session's phase); a run of the whole service is any sequence of
  events of any sessions, in any interleaving. The invariant \<open>world_inv\<close> holds in
  every reachable world; from it: each stream delivers strictly ascending stamps (so
  no post twice and in order), a post appended concurrently by anyone always lands
  after every cursor, and every delivery cycle delivers all visible posts after the
  cursor.
\<close>

datatype phase = Commanding | Streaming

record session =
  who :: username
  phase :: phase
  cursor :: nat
  delivered :: "post list"

record world =
  server_of :: server
  sessions :: "session list"

datatype event =
    Ev_login username
  | Ev_follow nat username
  | Ev_unfollow nat username
  | Ev_open nat
  | Ev_post nat string
  | Ev_deliver nat

definition init_world :: world where
  "init_world = \<lparr>server_of = init_server, sessions = []\<rparr>"

definition deliver :: "server \<Rightarrow> session \<Rightarrow> session" where
  "deliver s x =
     (let (new, c') = timeline_cycle (posts s) (authors_of (edges s) (who x)) (cursor x)
      in x\<lparr>cursor := c', delivered := delivered x @ new\<rparr>)"

fun world_step :: "event \<Rightarrow> world \<Rightarrow> world option" where
  "world_step (Ev_login n) w =
     (let (st, s') = srv_login n (server_of w)
      in if st \<in> {SUCCESS, FAILURE_ALREADY_EXISTS}
         then Some (w\<lparr>server_of := s', sessions := sessions w @
                 [\<lparr>who = n, phase = Commanding, cursor = 0, delivered = []\<rparr>]\<rparr>)
         else Some (w\<lparr>server_of := s'\<rparr>))"
| "world_step (Ev_follow i b) w =
     (if i < length (sessions w) \<and> phase (sessions w ! i) = Commanding
      then Some (w\<lparr>server_of := snd (srv_follow (who (sessions w ! i)) b (server_of w))\<rparr>)
      else None)"
| "world_step (Ev_unfollow i b) w =
     (if i < length (sessions w) \<and> phase (sessions w ! i) = Commanding
      then Some (w\<lparr>server_of := snd (srv_unfollow (who (sessions w ! i)) b (server_of w))\<rparr>)
      else None)"
| "world_step (Ev_open i) w =
     (if i < length (sessions w) \<and> phase (sessions w ! i) = Commanding
      then Some (w\<lparr>sessions := (sessions w)[i := (sessions w ! i)\<lparr>phase := Streaming,
                    cursor := clock (posts (server_of w))\<rparr>]\<rparr>)
      else None)"
| "world_step (Ev_post i t) w =
     (if i < length (sessions w) \<and> phase (sessions w ! i) = Streaming
      then Some (w\<lparr>server_of := snd (srv_post (who (sessions w ! i)) t (server_of w))\<rparr>)
      else None)"
| "world_step (Ev_deliver i) w =
     (if i < length (sessions w) \<and> phase (sessions w ! i) = Streaming
      then Some (w\<lparr>sessions := (sessions w)[i := deliver (server_of w) (sessions w ! i)]\<rparr>)
      else None)"

fun run_events :: "event list \<Rightarrow> world \<Rightarrow> world option" where
  "run_events [] w = Some w"
| "run_events (e # es) w = (case world_step e w of None \<Rightarrow> None | Some w' \<Rightarrow> run_events es w')"

inductive reachable_world :: "world \<Rightarrow> bool" where
  init: "reachable_world init_world"
| step: "reachable_world w \<Longrightarrow> world_step e w = Some w' \<Longrightarrow> reachable_world w'"

definition session_inv :: "server \<Rightarrow> session \<Rightarrow> bool" where
  "session_inv s x \<longleftrightarrow> user_exists (users s) (who x) \<and> cursor x \<le> clock (posts s)
     \<and> ascending stamp (delivered x) \<and> (\<forall>p \<in> set (delivered x). stamp p \<le> cursor x)"

definition world_inv :: "world \<Rightarrow> bool" where
  "world_inv w \<longleftrightarrow> server_inv (server_of w) \<and> (\<forall>x \<in> set (sessions w). session_inv (server_of w) x)"

subsection \<open>One delivery cycle keeps a session well formed\<close>

lemma deliver_fields:
  "cursor (deliver s x) = snd (timeline_cycle (posts s) (authors_of (edges s) (who x)) (cursor x))"
  "delivered (deliver s x) = delivered x @ fst (timeline_cycle (posts s) (authors_of (edges s) (who x)) (cursor x))"
  "who (deliver s x) = who x" "phase (deliver s x) = phase x"
  by (simp_all add: deliver_def split_def Let_def)

lemma deliver_inv:
  assumes "server_inv s" "session_inv s x"
  shows "session_inv s (deliver s x)"
proof -
  let ?A = "authors_of (edges s) (who x)"
  obtain new c' where tc: "timeline_cycle (posts s) ?A (cursor x) = (new, c')" by fastforce
  have st: "store_inv (posts s)" and gi: "graph_inv (user_exists (users s)) (edges s)"
    using assms(1) by (simp_all add: server_inv_def)
  have da: "distinct ?A" using gi by (rule authors_of_distinct)
  have cur: "cursor x \<le> c' \<and> (\<forall>p \<in> set new. cursor x < stamp p \<and> stamp p \<le> c')"
    using timeline_cycle_cursor [OF st da tc] .
  have asc: "ascending stamp new"
    using ascending_timeline_cycle [OF st da, of "cursor x"] tc by simp
  have clk: "c' \<le> clock (posts s)"
    using timeline_cycle_cursor_le_clock [OF st, of "cursor x" ?A] assms(2) tc
    by (simp add: session_inv_def)
  have old: "ascending stamp (delivered x)" "\<forall>p \<in> set (delivered x). stamp p \<le> cursor x"
    "user_exists (users s) (who x)"
    using assms(2) by (simp_all add: session_inv_def)
  have "\<forall>p \<in> set (delivered x). \<forall>q \<in> set new. stamp p < stamp q"
    using old(2) cur by fastforce
  with asc old(1) have "ascending stamp (delivered x @ new)" by (simp add: ascending_append)
  moreover have "\<forall>p \<in> set (delivered x @ new). stamp p \<le> c'"
    using old(2) cur by fastforce
  ultimately show ?thesis
    using clk old(3) tc by (simp add: session_inv_def deliver_fields)
qed

lemma session_inv_mono:
  "session_inv s x \<Longrightarrow> set (users s) \<subseteq> set (users s') \<Longrightarrow> clock (posts s) \<le> clock (posts s')
   \<Longrightarrow> session_inv s' x"
  by (auto simp: session_inv_def user_exists_def)

lemma sessions_update_inv:
  "\<forall>x \<in> set xs. P x \<Longrightarrow> P y \<Longrightarrow> \<forall>x \<in> set (xs[i := y]). P x"
  by (auto dest: set_update_subset_insert [THEN subsetD])

subsection \<open>Every event keeps the world well formed\<close>

lemma world_inv_server:
  assumes "world_inv w" "server_inv s'" "set (users (server_of w)) \<subseteq> set (users s')"
    "clock (posts (server_of w)) \<le> clock (posts s')"
  shows "world_inv (w\<lparr>server_of := s'\<rparr>)"
  using assms by (auto simp: world_inv_def intro: session_inv_mono)

lemma world_step_inv:
  assumes "world_inv w" "world_step e w = Some w'"
  shows "world_inv w'"
proof (cases e)
  case (Ev_login n)
  obtain st s' where l: "srv_login n (server_of w) = (st, s')" by fastforce
  have si: "server_inv s'" using assms(1) l srv_login_inv [of "server_of w" n] by (simp add: world_inv_def)
  have mono: "set (users (server_of w)) \<subseteq> set (users s')"
    using l srv_login_users_mono [of "server_of w" n] by simp
  have clk: "clock (posts s') = clock (posts (server_of w))"
    using l srv_login_posts [of n "server_of w"] by simp
  have w1: "world_inv (w\<lparr>server_of := s'\<rparr>)"
    using assms(1) si mono clk by (intro world_inv_server) simp_all
  show ?thesis
  proof (cases "st \<in> {SUCCESS, FAILURE_ALREADY_EXISTS}")
    case True
    have "user_exists (users s') n"
      using True l srv_login_ok_registers [of n "server_of w"] by simp
    then have "session_inv s' \<lparr>who = n, phase = Commanding, cursor = 0, delivered = []\<rparr>"
      by (simp add: session_inv_def)
    with w1 True assms(2) Ev_login l show ?thesis by (auto simp: world_inv_def)
  next
    case False
    with w1 assms(2) Ev_login l show ?thesis by auto
  qed
next
  case (Ev_follow i b)
  let ?s' = "snd (srv_follow (who (sessions w ! i)) b (server_of w))"
  have "world_inv (w\<lparr>server_of := ?s'\<rparr>)"
    using assms(1) by (intro world_inv_server) (simp_all add: world_inv_def srv_follow_inv)
  with assms(2) Ev_follow show ?thesis by (simp split: if_splits)
next
  case (Ev_unfollow i b)
  let ?s' = "snd (srv_unfollow (who (sessions w ! i)) b (server_of w))"
  have "world_inv (w\<lparr>server_of := ?s'\<rparr>)"
    using assms(1) by (intro world_inv_server) (simp_all add: world_inv_def srv_unfollow_inv)
  with assms(2) Ev_unfollow show ?thesis by (simp split: if_splits)
next
  case (Ev_open i)
  show ?thesis
  proof (cases "i < length (sessions w) \<and> phase (sessions w ! i) = Commanding")
    case True
    let ?x = "sessions w ! i"
    have "session_inv (server_of w) ?x" using assms(1) True by (simp add: world_inv_def)
    then have "session_inv (server_of w) (?x\<lparr>phase := Streaming, cursor := clock (posts (server_of w))\<rparr>)"
      by (force simp: session_inv_def)
    with assms(1) have "\<forall>y \<in> set ((sessions w)[i := ?x\<lparr>phase := Streaming,
        cursor := clock (posts (server_of w))\<rparr>]). session_inv (server_of w) y"
      by (intro sessions_update_inv) (simp_all add: world_inv_def)
    with assms True Ev_open show ?thesis by (auto simp: world_inv_def)
  next
    case False
    with assms(2) Ev_open show ?thesis by simp
  qed
next
  case (Ev_post i t)
  let ?s' = "snd (srv_post (who (sessions w ! i)) t (server_of w))"
  have "world_inv (w\<lparr>server_of := ?s'\<rparr>)"
    using assms(1) by (intro world_inv_server) (simp_all add: world_inv_def srv_post_inv srv_post_clock)
  with assms(2) Ev_post show ?thesis by (simp split: if_splits)
next
  case (Ev_deliver i)
  show ?thesis
  proof (cases "i < length (sessions w) \<and> phase (sessions w ! i) = Streaming")
    case True
    have "session_inv (server_of w) (deliver (server_of w) (sessions w ! i))"
      using assms(1) True by (intro deliver_inv) (simp_all add: world_inv_def)
    with assms(1) have "\<forall>y \<in> set ((sessions w)[i := deliver (server_of w) (sessions w ! i)]).
        session_inv (server_of w) y"
      by (intro sessions_update_inv) (simp_all add: world_inv_def)
    with assms True Ev_deliver show ?thesis by (auto simp: world_inv_def)
  next
    case False
    with assms(2) Ev_deliver show ?thesis by simp
  qed
qed

lemma world_inv_init: "world_inv init_world"
  by (simp add: world_inv_def init_world_def server_inv_init)

lemma reachable_world_inv: "reachable_world w \<Longrightarrow> world_inv w"
  by (induction rule: reachable_world.induct) (auto intro: world_inv_init world_step_inv)

lemma run_events_reachable:
  "reachable_world w \<Longrightarrow> run_events es w = Some w' \<Longrightarrow> reachable_world w'"
  by (induction es arbitrary: w) (auto intro: reachable_world.step split: option.splits)

subsection \<open>What the invariant gives\<close>

lemma stream_ascending:
  "reachable_world w \<Longrightarrow> x \<in> set (sessions w) \<Longrightarrow> ascending stamp (delivered x)"
  by (auto simp: world_inv_def session_inv_def dest: reachable_world_inv)

lemma post_lands_after_cursors:
  assumes "world_inv w" "world_step (Ev_post i t) w = Some w'" "x \<in> set (sessions w)"
    and "p \<in> set (logs (posts (server_of w')) a)" "p \<notin> set (logs (posts (server_of w)) a)"
  shows "cursor x < stamp p"
proof -
  have c: "cursor x \<le> clock (posts (server_of w))"
    using assms(1,3) by (simp add: world_inv_def session_inv_def)
  from assms(2) have i: "i < length (sessions w)" "phase (sessions w ! i) = Streaming"
    by (simp_all split: if_splits)
  with assms(2,4,5) have "stamp p = Suc (clock (posts (server_of w)))"
    by (auto simp: srv_post_def split: if_splits)
  with c show ?thesis by simp
qed

lemma deliver_complete:
  "server_inv s \<Longrightarrow> set (delivered (deliver s x))
     = set (delivered x) \<union> visible (posts s) (authors_of (edges s) (who x)) (cursor x)"
  by (simp add: deliver_fields server_inv_def set_timeline_cycle)

lemma streaming_one_way:
  assumes "world_step e w = Some w'" "i < length (sessions w)" "phase (sessions w ! i) = Streaming"
  shows "i < length (sessions w') \<and> phase (sessions w' ! i) = Streaming"
  using assms
  by (cases e) (auto simp: nth_list_update nth_append deliver_fields split: if_splits prod.splits)

lemma unfollowed_author_not_delivered:
  assumes "server_inv s" "a \<noteq> b" "srv_unfollow a b s = (st, s')" "who x = a"
    and "p \<in> set (delivered (deliver s' x))" "p \<notin> set (delivered x)"
  shows "author p \<noteq> b"
proof -
  have si: "server_inv s'" using assms(1,3) srv_unfollow_inv [of s a b] by simp
  have "(a, b) \<notin> set (edges s')" using assms(3) srv_unfollow_removes_edge by metis
  then have nb: "b \<notin> set (authors_of (edges s') (who x))" using assms(2,4) by simp
  have "p \<in> visible (posts s') (authors_of (edges s') (who x)) (cursor x)"
    using assms(5,6) deliver_complete [OF si, of x] by simp
  then obtain c where "c \<in> set (authors_of (edges s') (who x))" "p \<in> set (logs (posts s') c)"
    by (auto simp: visible_def)
  moreover have "author p = c"
    using si \<open>p \<in> set (logs (posts s') c)\<close> store_inv_author [of "posts s'" p c]
    by (simp add: server_inv_def)
  ultimately show ?thesis using nb by auto
qed

subsection \<open>Spec \<section>8's scenario as a run of interleaved events\<close>

text \<open>
  alice and bob log in, alice follows bob, both open their streams, bob posts
  \<open>hello\<close>; alice's next cycle delivers exactly that post and the cycle after it
  delivers nothing more.
\<close>

definition hello_events :: "event list" where
  "hello_events = [Ev_login ''alice'', Ev_login ''bob'', Ev_follow 0 ''bob'', Ev_open 0, Ev_open 1,
                   Ev_post 1 ''hello'', Ev_deliver 0, Ev_deliver 0]"

lemma hello_run:
  "map_option (\<lambda>w. delivered (sessions w ! 0)) (run_events hello_events init_world)
     = Some [\<lparr>author = ''bob'', post_text = ''hello'', stamp = 1\<rparr>]"
  by (simp add: hello_events_def init_world_def init_server_def srv_login_def ensure_user_cases
      srv_follow_def follow_def srv_post_def user_exists_def deliver_def timeline_cycle_def
      kmerge_def posts_after_def authors_of_def following_def Let_def)

end
