(* ===== verification/Commands.thy ===== *)
theory Commands
  imports ClientCommand
begin

text \<open>
  The command language the client reads, as the guide comment of
  \<open>Client::processCommand\<close> states it (src/tsc.cc 116--121): \<open>FOLLOW <username>\<close>,
  \<open>UNFOLLOW <username>\<close>, \<open>LIST\<close> and \<open>TIMELINE\<close>, word and name separated by
  one space. \<open>command\<close> is that language as data, \<open>render\<close> spells a command as
  its command line and \<open>parse_command\<close> reads a line by the grammar (the exact word,
  one space, a non-empty name without blanks or NUL). \<open>command_result\<close> is the
  abstract meaning of a command of a logged-in user: the status the Service
  Fa\<c>cade of the spec answers and the server state after it (List is read-only;
  \<open>TIMELINE\<close> changes nothing before the stream starts). These are the
  specification side of the refinement proved in the root theory: on every line of
  the grammar, \<open>processCommand\<close> reports that status and leaves that state.
\<close>

datatype command = Cmd_follow username | Cmd_unfollow username | Cmd_list | Cmd_timeline

definition valid_name :: "username \<Rightarrow> bool" where
  "valid_name b \<longleftrightarrow> b \<noteq> [] \<and> CHR 0x00 \<notin> set b \<and> CHR '' '' \<notin> set b"

primrec valid_command :: "command \<Rightarrow> bool" where
  "valid_command (Cmd_follow b) = valid_name b"
| "valid_command (Cmd_unfollow b) = valid_name b"
| "valid_command Cmd_list = True"
| "valid_command Cmd_timeline = True"

primrec render :: "command \<Rightarrow> string" where
  "render (Cmd_follow b) = ''FOLLOW '' @ b"
| "render (Cmd_unfollow b) = ''UNFOLLOW '' @ b"
| "render Cmd_list = ''LIST''"
| "render Cmd_timeline = ''TIMELINE''"

definition parse_command :: "string \<Rightarrow> command option" where
  "parse_command l =
     (if l = ''LIST'' then Some Cmd_list
      else if l = ''TIMELINE'' then Some Cmd_timeline
      else if take 7 l = ''FOLLOW '' \<and> valid_name (drop 7 l) then Some (Cmd_follow (drop 7 l))
      else if take 9 l = ''UNFOLLOW '' \<and> valid_name (drop 9 l) then Some (Cmd_unfollow (drop 9 l))
      else None)"

primrec command_result :: "username \<Rightarrow> command \<Rightarrow> server \<Rightarrow> istatus \<times> server" where
  "command_result u (Cmd_follow b) s = srv_follow u b s"
| "command_result u (Cmd_unfollow b) s = srv_unfollow u b s"
| "command_result u Cmd_list s = (fst (srv_list u s), s)"
| "command_result u Cmd_timeline s = (SUCCESS, s)"

subsection \<open>The grammar: printing and reading are inverse\<close>

lemma valid_name_no_nul: "valid_name b \<Longrightarrow> CHR 0x00 \<notin> set b"
  by (simp add: valid_name_def)

lemma parse_render: "valid_command cmd \<Longrightarrow> parse_command (render cmd) = Some cmd"
  by (cases cmd) (auto simp: parse_command_def valid_name_def)

lemma render_parse: "parse_command l = Some cmd \<Longrightarrow> render cmd = l \<and> valid_command cmd"
proof -
  assume p: "parse_command l = Some cmd"
  have f: "take 7 l = ''FOLLOW '' \<Longrightarrow> ''FOLLOW '' @ drop 7 l = l"
    by (metis append_take_drop_id)
  have u: "take 9 l = ''UNFOLLOW '' \<Longrightarrow> ''UNFOLLOW '' @ drop 9 l = l"
    by (metis append_take_drop_id)
  from p f u show ?thesis
    by (auto simp: parse_command_def split: if_splits)
qed

end
