(* ===== verification/Spec2Isabelle.thy ===== *)
theory Spec2Isabelle
  imports Run Session Commands
begin

text \<open>
  \<^bold>\<open>TinySNS: a verification development of src/tsc.cc against the service it talks to.\<close>

  \<^emph>\<open>The program.\<close> The repository is a gRPC social-network homework. Its client,
  src/tsc.cc, is the only code with logic: \<open>main\<close> reads \<open>-h -u -p\<close> with
  \<open>getopt\<close>, constructs a \<open>Client\<close> and hands it to \<open>run_client\<close>;
  \<open>Client::connectTo\<close> creates the stub and sends \<open>Login\<close>;
  \<open>Client::processCommand\<close> dispatches a command line (\<open>FOLLOW\<close>,
  \<open>UNFOLLOW\<close>, \<open>LIST\<close>, \<open>TIMELINE\<close>) by \<open>strncmp\<close> prefix tests, calls
  \<open>Follow\<close> or \<open>Unfollow\<close> through the stub, and decodes the digit in the
  reply's \<open>status\<close> field into an \<open>IStatus\<close>; \<open>Client::processTimeline\<close>
  has its body commented out. The server, src/tsd.cc, holds only include and using
  declarations: the service the client talks to exists in the spec alone, so it is
  modelled from the spec (User Directory, Follow Graph, Post Store, Timeline Merge
  Engine, Service fa\<c>cade, streaming sessions), as are the parts of client.h the
  client relies on (\<open>IStatus\<close>, \<open>IReply\<close>, the \<open>run_client\<close> loop).

  \<^emph>\<open>The theories.\<close>
  \<^item> Prelude: the model's names, the C/C++ library calls of the client
    (\<open>c_str\<close>, \<open>strncmp\<close>, \<open>std::string::substr\<close>), the two abnormal ends of
    a call (the \<open>out_of_range\<close> exception, a call through a null stub) as error
    values, and lemmas on sequences strictly ascending in a key.
  \<^item> Wire: \<open>istatus\<close> (client.h), the client's \<open>decode_status\<close>
    (tsc.cc 160--174), the server's \<open>encode_status\<close> and the component error kinds.
  \<^item> Directory, FollowGraph, PostStore, Timeline: the server components, each with
    its state, its operations as the spec states them, its invariant and the lemmas
    that every operation keeps it. Timeline proves the k-way merge of per-author logs
    correct: it equals the stable sort by timestamp of the posts after the cursor, the
    output ascends strictly, and the cursor moves to the last delivered stamp.
  \<^item> Service: the server state, one handler per RPC, \<open>serve\<close> (the RPC surface
    with the wire encoding) and \<open>server_inv\<close>, kept by every request.
  \<^item> Session: the server side of the streaming RPCs (\<open>GetTimeline\<close>,
    \<open>PostTimeline\<close>, spec \<section>4.5 and \<section>5). A world is the server state and its
    sessions; a session has a phase (command, streaming: one way), a cursor and the
    posts delivered on its stream. \<open>world_step\<close> runs one event of one session;
    \<open>reachable_world\<close> is every interleaving. \<open>world_inv\<close> is kept: each stream
    delivers strictly ascending stamps, posts made concurrently land after every
    cursor, a delivery cycle delivers every visible post, and after an unfollow the
    author's new posts are no longer delivered.
  \<^item> The client, src/tsc.cc, one theory per part of the code. TscClient: the
    \<open>Client\<close> record, the \<open>Client\<close> class with exactly its members (three
    strings and the stub, \<open>None\<close> while the \<open>unique_ptr\<close> is null), its
    constructor \<open>new_client\<close> and \<open>IReply\<close> as \<open>ireply\<close>; what the program
    prints goes to a separate \<open>terminal\<close>, the list of strings written to
    \<open>std::cout\<close>. The stub is an interface, a call function over any server state:
    every client lemma holds for any server; \<open>rpc_serve\<close> binds it to the modelled
    service and \<open>rpc_down\<close> to a transport that fails. TscMain: \<open>main_opts\<close> and
    \<open>client_of_args\<close>, the option loop of \<open>main\<close>. ClientLogin: \<open>connectTo\<close>
    with \<open>login_outcome\<close>, \<open>Client::connectTo\<close>. ClientCommand:
    \<open>processCommand\<close> with \<open>follow_branch\<close>, \<open>unfollow_branch\<close>,
    \<open>list_branch\<close>, \<open>timeline_branch\<close> and the shared tail \<open>command_reply\<close>,
    \<open>Client::processCommand\<close>. ClientTimeline: \<open>processTimeline\<close>,
    \<open>Client::processTimeline\<close>.
  \<^item> Commands: the command grammar of the guide comment (tsc.cc 116--121) as a
    datatype with a printer and a parser that invert each other, and the abstract
    result of each command (the specification side of the refinement C17).
  \<^item> System: many client processes, each with its own terminal, against one server.
    A process has a mode (disconnected, command, timeline, terminated) as the
    \<open>run_client\<close> loop of client.h moves it; \<open>sys_step\<close> is an inductive
    relation with one rule per move (connect, command, entering timeline mode, crash
    on an exception or a null-stub call escaping \<open>processCommand\<close>), so every
    interleaving of the processes is a run. \<open>sys_inv\<close> (server well formed, every
    process in command mode logged in as a registered user) holds in every reachable
    state, by rule induction.
  \<^item> Run: one process from start to end: \<open>run_commands\<close> (the command loop over
    given lines, collecting the replies), \<open>run_client\<close> (connect, then the command
    loop until an exception, timeline mode or the end of the input), and \<open>main\<close>,
    tsc.cc's \<open>main\<close>; the endless loop returns exactly what the finite loop
    returns on a prefix of its input.
  \<^item> Spec2Isabelle (this theory): the properties that span client and server.

  \<^emph>\<open>What is shown.\<close> Each property below fails when the client code it is about
  is changed. A \<open>FOLLOW\<close> or \<open>UNFOLLOW\<close> line reaches the server as the right
  request, and the client reports exactly the contract's result (C1, C2); the seventh
  character of a \<open>FOLLOW\<close> line is dropped whatever it is (C11); on every line of
  the command grammar \<open>processCommand\<close> refines the contract of its command (C17).
  The error paths are as the code has them: a bare \<open>FOLLOW\<close> or \<open>UNFOLLOW\<close>
  throws before anything is printed (C3); a failed transport reads as \<open>SUCCESS\<close>
  (C4); \<open>LIST\<close> and unknown commands make no call and report \<open>SUCCESS\<close> (C5, C6).
  \<open>connectTo\<close> against the server and against a failed transport (C7, C8, C16); the
  option loop of \<open>main\<close> (C9); sequences of follow and unfollow lines (C10). In any
  interleaving of any number of clients, every client in command mode is logged in
  (C12) and holds its stub, so no call goes through a null pointer (C15); a
  successful \<open>FOLLOW\<close> feeds the followee's posts into the follower's stream and an
  \<open>UNFOLLOW\<close> stops them (C13, C14). The endless command loop returns on every
  input with a \<open>TIMELINE\<close> line (C18). Two clients' \<open>FOLLOW\<close> lines, in either
  order, leave the follow relation with exactly the requested edges whose ends are
  registered and distinct (C19).

  \<^emph>\<open>Bounds and termination.\<close> The option loop of \<open>main\<close>, the merge of
  per-author logs and \<open>command_loop\<close> are structural recursion over finite lists
  (the options \<open>getopt\<close> returned, the authors, a finite sequence of command
  lines), so they need no fuel and always return. The \<open>while (1)\<close> loop itself is
  \<open>client_loop\<close>, a \<open>partial_function (option)\<close> over an endless input stream:
  not returning is the value \<open>None\<close> (Run proves it for an input of \<open>LIST\<close>
  lines), and C18 proves that it returns on every stream with a \<open>TIMELINE\<close> line.
  The logical clock is a \<open>nat\<close>: the spec gives it no width. \<open>connectTo\<close>'s
  \<open>int\<close> result takes the values 1 and -1 only (C16).

  \<^emph>\<open>Not modelled.\<close> gRPC channels, protobuf serialisation and terminal formatting
  are library code: the stub is the call-function interface and output is the
  sequence of strings written. The \<open>getopt\<close> permutation of \<open>argv\<close> is
  library behaviour: \<open>main\<close> is modelled over the options \<open>getopt\<close> returns. The
  display helpers of client.h (\<open>displayTitle\<close>, \<open>displayCommandReply\<close>) are not
  in the repository and print nothing in the model. Undefined behaviour is not
  modelled: \<open>target_name\<close> points into a destroyed temporary (tsc.cc 134, 144); the
  model passes the intended string. A call through a null stub (undefined behaviour)
  is taken as the end of the process; the error value carries no terminal, so the
  echo the \<open>FOLLOW\<close> branch printed just before such a call is not in the model's
  output, and \<open>sys_step\<close>'s crash rule keeps the terminal of before the command.
  The server has no code: its status digits (\<open>encode_status\<close>) are not given by the
  spec and are chosen as the codes the client's \<open>decode_status\<close> reads, so no
  property rests on their round trip. Follow by an unregistered follower answers
  \<open>INVALID_USERNAME\<close>, as the spec's testable properties (\<section>8) ask, before the
  guards of \<section>4.2. The commented-out body of \<open>processTimeline\<close> is not code and is not
  modelled; src/tsd.cc has no code to model.
\<close>

section \<open>Fixtures\<close>

text \<open>
  \<open>client_new u\<close> is the object \<open>main\<close> constructs for user \<open>u\<close> with the
  default host and port, before \<open>connectTo\<close>; \<open>client0 u\<close> is the same object
  once \<open>connectTo\<close> has created its stub.
\<close>

definition client_new :: "username \<Rightarrow> Client" where
  "client_new u = \<lparr>hostname = ''localhost'', username = u, port = ''3010'', stub = None\<rparr>"

definition client0 :: "username \<Rightarrow> Client" where
  "client0 u = (client_new u)\<lparr>stub := Some ''localhost:3010''\<rparr>"

definition srv_ab :: server where
  "srv_ab = init_server\<lparr>users := [''alice'', ''bob'']\<rparr>"

definition srv_hello :: server where
  "srv_hello = snd (srv_post ''bob'' ''hello'' (srv_ab\<lparr>edges := [(''alice'', ''bob'')]\<rparr>))"

definition sys_alice :: sys where
  "sys_alice = \<lparr>srv = init_server\<lparr>users := [''alice'']\<rparr>,
                procs = [\<lparr>cl = client0 ''alice'', console = [''new user created'' @ endl], mode = Cl_command\<rparr>]\<rparr>"

definition srv_posted :: server where
  "srv_posted = snd (srv_post ''bob'' ''hello'' srv_ab)"

definition srv_both_posted :: server where
  "srv_both_posted = snd (srv_post ''alice'' ''hi'' srv_hello)"

definition stream0 :: "username \<Rightarrow> session" where
  "stream0 u = \<lparr>who = u, phase = Streaming, cursor = 0, delivered = []\<rparr>"

definition toggle_cmd :: "username \<Rightarrow> bool \<Rightarrow> string" where
  "toggle_cmd b f = (if f then ''FOLLOW '' @ b else ''UNFOLLOW '' @ b)"

section \<open>Commands against the server\<close>

text \<open>
  C1. A \<open>FOLLOW <name>\<close> command line (a name without NUL, a client whose stub
  exists) reaches the server as one Follow request from the client's user, the
  server's follow graph changes exactly as the Follow contract says, the client's
  \<open>comm_status\<close> is the contract's result, decoded from the wire without loss, and
  the terminal shows the echo and the status code.
\<close>

theorem follow_command_end_to_end:
  assumes "stub c \<noteq> None" "CHR 0x00 \<notin> set b"
  shows "\<exists>r. processCommand rpc_serve c (''FOLLOW '' @ b) t s =
             Inr (r, t @ [''follow command'', ''FOLLOW '' @ b, encode_status (fst (srv_follow (username c) b s))],
                  snd (srv_follow (username c) b s))
           \<and> grpc_status r = Grpc_OK
           \<and> comm_status r = status_of (follow (user_exists (users s)) (username c) b (edges s))
           \<and> edges (snd (srv_follow (username c) b s)) =
               (case follow (user_exists (users s)) (username c) b (edges s) of
                  Inl _ \<Rightarrow> edges s | Inr g \<Rightarrow> g)"
  using assms
  by (auto simp: processCommand_def follow_branch_def strncmp_eq_def cstr_append split_def Let_def
      command_reply_def srv_follow_status srv_follow_edges split: option.split)

theorem follow_command_end_to_end_witness:
  "stub (client0 ''alice'') \<noteq> None \<and> CHR 0x00 \<notin> set ''bob'' \<and>
   (\<exists>r. processCommand rpc_serve (client0 ''alice'') (''FOLLOW '' @ ''bob'') [] srv_ab =
          Inr (r, [] @ [''follow command'', ''FOLLOW '' @ ''bob'', encode_status (fst (srv_follow ''alice'' ''bob'' srv_ab))],
               snd (srv_follow ''alice'' ''bob'' srv_ab))
        \<and> grpc_status r = Grpc_OK
        \<and> comm_status r = status_of (follow (user_exists (users srv_ab)) ''alice'' ''bob'' (edges srv_ab))
        \<and> edges (snd (srv_follow ''alice'' ''bob'' srv_ab)) =
            (case follow (user_exists (users srv_ab)) ''alice'' ''bob'' (edges srv_ab) of
               Inl _ \<Rightarrow> edges srv_ab | Inr g \<Rightarrow> g))"
proof -
  have h: "stub (client0 ''alice'') \<noteq> None" "CHR 0x00 \<notin> set ''bob''"
    by (simp_all add: client0_def)
  show ?thesis
    using h follow_command_end_to_end [OF h, where t = "[]" and s = srv_ab]
    by (simp add: client0_def client_new_def)
qed

text \<open>
  C2. An \<open>UNFOLLOW <name>\<close> command line reaches the server as one Unfollow request,
  the edge is removed exactly when it was present, the client's \<open>comm_status\<close> is
  the Unfollow contract's result, and the terminal shows the fixed echo (without the
  name) and the status code.
\<close>

theorem unfollow_command_end_to_end:
  assumes "stub c \<noteq> None" "CHR 0x00 \<notin> set b"
  shows "\<exists>r. processCommand rpc_serve c (''UNFOLLOW '' @ b) t s =
             Inr (r, t @ [''unfollow command'', encode_status (fst (srv_unfollow (username c) b s))],
                  snd (srv_unfollow (username c) b s))
           \<and> grpc_status r = Grpc_OK
           \<and> comm_status r = status_of (unfollow (username c) b (edges s))
           \<and> set (edges (snd (srv_unfollow (username c) b s))) = set (edges s) - {(username c, b)}"
proof -
  have e: "set (edges (snd (srv_unfollow (username c) b s))) = set (edges s) - {(username c, b)}"
    by (auto simp: srv_unfollow_edges unfollow_def split: sum.splits if_splits)
  show ?thesis
    using assms
    by (auto simp: e processCommand_def unfollow_branch_def strncmp_eq_def cstr_append split_def
        Let_def command_reply_def srv_unfollow_status split: option.split)
qed

theorem unfollow_command_end_to_end_witness:
  "stub (client0 ''alice'') \<noteq> None \<and> CHR 0x00 \<notin> set ''bob'' \<and>
   (\<exists>r. processCommand rpc_serve (client0 ''alice'') (''UNFOLLOW '' @ ''bob'') [] srv_ab =
          Inr (r, [] @ [''unfollow command'', encode_status (fst (srv_unfollow ''alice'' ''bob'' srv_ab))],
               snd (srv_unfollow ''alice'' ''bob'' srv_ab))
        \<and> grpc_status r = Grpc_OK
        \<and> comm_status r = status_of (unfollow ''alice'' ''bob'' (edges srv_ab))
        \<and> set (edges (snd (srv_unfollow ''alice'' ''bob'' srv_ab))) = set (edges srv_ab) - {(''alice'', ''bob'')})"
proof -
  have h: "stub (client0 ''alice'') \<noteq> None" "CHR 0x00 \<notin> set ''bob''"
    by (simp_all add: client0_def)
  show ?thesis
    using h unfollow_command_end_to_end [OF h, where t = "[]" and s = srv_ab]
    by (simp add: client0_def client_new_def)
qed

text \<open>
  C3. A \<open>FOLLOW\<close> or \<open>UNFOLLOW\<close> command line without a name makes
  \<open>input.substr\<close> throw \<open>std::out_of_range\<close> before any call or output: the
  exception leaves \<open>processCommand\<close>, whatever the server and the stub.
\<close>

theorem command_without_target_throws:
  "processCommand call c ''FOLLOW'' t s = Inl Out_of_range
   \<and> processCommand call c ''UNFOLLOW'' t s = Inl Out_of_range"
  by (simp add: processCommand_def follow_branch_def unfollow_branch_def strncmp_eq_def)

text \<open>
  C4. When the call cannot reach the server, no reply message is filled and the empty
  status string decodes to \<open>SUCCESS\<close>: every command line that neither throws nor
  calls through a missing stub is reported to the user as a success, and the server
  is untouched.
\<close>

theorem transport_failure_reads_as_success:
  "case processCommand rpc_down c input t s of
     Inl e \<Rightarrow> e = Out_of_range \<or> e = Null_stub \<and> stub c = None
   | Inr (r, _, s1) \<Rightarrow> comm_status r = SUCCESS \<and> s1 = s"
  by (auto simp: processCommand_def follow_branch_def unfollow_branch_def list_branch_def
      timeline_branch_def command_reply_def split_def Let_def
      split: sum.splits if_splits option.splits)

text \<open>
  C5. \<open>LIST\<close> makes no call: the reply says \<open>SUCCESS\<close> with both user lists empty,
  whatever the server holds, the server is untouched, and the terminal shows the echo
  and an empty status.
\<close>

theorem list_command_makes_no_call:
  "\<exists>r. processCommand call c (''LIST'' @ rest) t s = Inr (r, t @ [''list command'', []], s)
     \<and> comm_status r = SUCCESS \<and> grpc_status r = Grpc_OK
     \<and> all_users r = [] \<and> following_users r = []"
  using process_command_list [of call c rest t s] by (simp add: command_reply_def)

text \<open>
  C6. A command line that starts with none of the four command words is answered
  \<open>SUCCESS\<close> without a call and without any output but the empty status.
\<close>

theorem unknown_command_succeeds:
  assumes "take 6 (cstr input) \<noteq> ''FOLLOW''" "take 8 (cstr input) \<noteq> ''UNFOLLOW''"
    "take 4 (cstr input) \<noteq> ''LIST''" "take 8 (cstr input) \<noteq> ''TIMELINE''"
  shows "processCommand call c input t s =
           Inr (\<lparr>grpc_status = Grpc_OK, comm_status = SUCCESS, all_users = [], following_users = []\<rparr>,
                t @ [[]], s)"
proof -
  have "\<not> strncmp_eq input ''FOLLOW'' 6" "\<not> strncmp_eq input ''UNFOLLOW'' 8"
       "\<not> strncmp_eq input ''LIST'' 4" "\<not> strncmp_eq input ''TIMELINE'' 8"
    using assms by (simp_all add: strncmp_eq_lit)
  then show ?thesis by (simp add: processCommand_def command_reply_def)
qed

theorem unknown_command_succeeds_witness:
  "take 6 (cstr ''HELP'') \<noteq> ''FOLLOW'' \<and> take 8 (cstr ''HELP'') \<noteq> ''UNFOLLOW''
   \<and> take 4 (cstr ''HELP'') \<noteq> ''LIST'' \<and> take 8 (cstr ''HELP'') \<noteq> ''TIMELINE''
   \<and> processCommand rpc_serve (client0 ''alice'') ''HELP'' [] srv_ab =
       Inr (\<lparr>grpc_status = Grpc_OK, comm_status = SUCCESS, all_users = [], following_users = []\<rparr>,
            [] @ [[]], srv_ab)"
  using unknown_command_succeeds [of "''HELP''" rpc_serve "client0 ''alice''" "[]" srv_ab] by simp

section \<open>Login and start-up\<close>

text \<open>
  C7. Against the modelled server, \<open>connectTo\<close> creates the stub for
  \<open>host:port\<close>, registers the user when new, and returns 1 for a new or an
  existing user with the matching message; an empty username is refused by the server
  and the client reports it as a failure to connect, returning -1.
\<close>

theorem connect_to_against_server:
  "connectTo rpc_serve c t s =
     (if username c = [] then -1 else 1,
      c\<lparr>stub := Some (hostname c @ '':'' @ port c)\<rparr>,
      t @ [if username c = [] then ''could not establish a connection to host'' @ endl
           else if username c \<in> set (users s)
           then username c @ '': successfully logged in'' @ endl
           else ''new user created'' @ endl],
      snd (srv_login (username c) s))
   \<and> set (users (snd (srv_login (username c) s))) =
       (if username c = [] then set (users s) else insert (username c) (set (users s)))"
  by (auto simp: connectTo_def login_outcome_def srv_login_def ensure_user_cases split_def Let_def)

text \<open>
  C8. When the Login call cannot reach the server, \<open>connectTo\<close> still creates the
  stub, prints that no connection could be established and returns -1.
\<close>

theorem connect_to_transport_failure:
  "connectTo rpc_down c t s =
     (-1, c\<lparr>stub := Some (hostname c @ '':'' @ port c)\<rparr>,
      t @ [''could not establish a connection to host'' @ endl], s)"
  by (simp add: connectTo_def login_outcome_def)

text \<open>
  C9. \<open>main\<close> builds the client from the options \<open>getopt\<close> returns: each of host,
  user and port is the argument of its last occurrence, else \<open>localhost\<close>,
  \<open>default\<close>, \<open>3010\<close>; the stub is not created yet; every other option prints one
  error line and changes nothing.
\<close>

theorem client_of_args_options:
  "client_of_args os =
     (\<lparr>hostname = opt_value CHR ''h'' os ''localhost'', username = opt_value CHR ''u'' os ''default'',
       port = opt_value CHR ''p'' os ''3010'', stub = None\<rparr>,
      replicate (bad_opts os) (''Invalid Command Line Argument'' @ endl))"
  by (simp add: client_of_args_def new_client_def main_opts_eq)

section \<open>Follow semantics seen from the client\<close>

lemma toggle_step:
  assumes "user_exists (users s) (username c)" "user_exists (users s) b" "username c \<noteq> b"
    "stub c \<noteq> None" "CHR 0x00 \<notin> set b"
  shows "\<exists>r t1 s1. processCommand rpc_serve c (toggle_cmd b f) t s = Inr (r, t1, s1)
           \<and> users s1 = users s \<and> ((username c, b) \<in> set (edges s1) \<longleftrightarrow> f)"
proof (cases f)
  case True
  have "(username c, b) \<in> set (edges (snd (srv_follow (username c) b s)))"
    using assms(1-3) by (rule srv_follow_edge_in)
  then show ?thesis
    by (subst toggle_cmd_def, simp only: True if_True, subst process_command_follow [OF assms(4,5)])
      (simp add: True split_def Let_def command_reply_def)
next
  case False
  have "(username c, b) \<notin> set (edges (snd (srv_unfollow (username c) b s)))"
    by (rule srv_unfollow_edge_out)
  then show ?thesis
    by (subst toggle_cmd_def, simp only: False if_False, subst process_command_unfollow [OF assms(4,5)])
      (simp add: False split_def Let_def command_reply_def)
qed

text \<open>
  C10. For a registered user and another registered user \<open>b\<close>, any sequence of
  \<open>FOLLOW b\<close> and \<open>UNFOLLOW b\<close> command lines runs through the command loop
  without error, and afterwards the edge exists exactly when the last command was
  \<open>FOLLOW\<close> (or, for no command, when it existed before).
\<close>

theorem follow_unfollow_parity:
  assumes "user_exists (users s) (username c)" "user_exists (users s) b" "username c \<noteq> b"
    "stub c \<noteq> None" "CHR 0x00 \<notin> set b"
  shows "\<exists>rs t1 s1. run_commands rpc_serve c (map (toggle_cmd b) fs) t s = Inr (rs, t1, s1)
           \<and> ((username c, b) \<in> set (edges s1) \<longleftrightarrow>
                (if fs = [] then (username c, b) \<in> set (edges s) else last fs))"
  using assms
proof (induction fs arbitrary: t s)
  case Nil
  then show ?case by simp
next
  case (Cons f fs)
  obtain r t0 s0 where step: "processCommand rpc_serve c (toggle_cmd b f) t s = Inr (r, t0, s0)"
    and us: "users s0 = users s" and e: "(username c, b) \<in> set (edges s0) \<longleftrightarrow> f"
    using toggle_step [OF Cons.prems] by blast
  have "user_exists (users s0) (username c)" "user_exists (users s0) b"
    using Cons.prems us by simp_all
  from Cons.IH [OF this Cons.prems(3-5)] obtain rs t1 s1 where
    run: "run_commands rpc_serve c (map (toggle_cmd b) fs) t0 s0 = Inr (rs, t1, s1)"
    and p: "(username c, b) \<in> set (edges s1) \<longleftrightarrow>
              (if fs = [] then (username c, b) \<in> set (edges s0) else last fs)"
    by blast
  show ?case using step run p e by (cases fs) auto
qed

theorem follow_unfollow_parity_witness:
  "user_exists (users srv_ab) (username (client0 ''alice'')) \<and> user_exists (users srv_ab) ''bob''
   \<and> username (client0 ''alice'') \<noteq> ''bob'' \<and> stub (client0 ''alice'') \<noteq> None \<and> CHR 0x00 \<notin> set ''bob''
   \<and> (\<exists>rs t1 s1. run_commands rpc_serve (client0 ''alice'') (map (toggle_cmd ''bob'') [True, False, True]) [] srv_ab
          = Inr (rs, t1, s1)
        \<and> ((username (client0 ''alice''), ''bob'') \<in> set (edges s1) \<longleftrightarrow>
             (if [True, False, True] = [] then (username (client0 ''alice''), ''bob'') \<in> set (edges srv_ab)
              else last [True, False, True])))"
proof -
  have h: "user_exists (users srv_ab) (username (client0 ''alice''))" "user_exists (users srv_ab) ''bob''"
    "username (client0 ''alice'') \<noteq> ''bob''" "stub (client0 ''alice'') \<noteq> None" "CHR 0x00 \<notin> set ''bob''"
    by (simp_all add: srv_ab_def init_server_def user_exists_def client0_def client_new_def)
  show ?thesis using h follow_unfollow_parity [OF h, of "[True, False, True]" "[]"] by blast
qed

text \<open>
  C11. The seventh character of a \<open>FOLLOW\<close> command line is dropped whatever it
  is: \<open>FOLLOW\<close> followed by any character and a name sends the same request and
  gets the same reply as \<open>FOLLOW \<close> and that name (so \<open>FOLLOWbob\<close> follows
  \<open>ob\<close>).
\<close>

theorem follow_command_drops_seventh_char:
  "map_sum id (\<lambda>(r, _, s1). (r, s1)) (processCommand call c (''FOLLOW'' @ x # b) t s)
   = map_sum id (\<lambda>(r, _, s1). (r, s1)) (processCommand call c (''FOLLOW '' @ cstr b) t s)"
proof (cases "stub c")
  case None
  then show ?thesis
    by (simp add: processCommand_def follow_branch_def strncmp_eq_def)
next
  case (Some k)
  then have "stub c \<noteq> None" by simp
  then show ?thesis
    using process_command_follow_any [of c call x b t s]
      process_command_follow_any [of c call "CHR '' ''" "cstr b" t s]
    by (simp add: cstr_idem split_def Let_def command_reply_def)
qed

section \<open>Many clients, one server\<close>

text \<open>
  The state after alice's process has connected to the empty server is reachable.
\<close>

lemma reachable_sys_alice: "System.reachable [client_new ''alice''] sys_alice"
proof -
  have ct: "connectTo rpc_serve (client_new ''alice'') [] init_server
      = (1, client0 ''alice'', [''new user created'' @ endl], init_server\<lparr>users := [''alice'']\<rparr>)"
    by (simp add: connectTo_def login_outcome_def client_new_def client0_def init_server_def srv_login_def
        ensure_user_cases split_def Let_def)
  have "sys_step (init_sys [client_new ''alice'']) sys_alice"
    using sys_step.connect [of 0 "init_sys [client_new ''alice'']" 1 "client0 ''alice''"
        "[''new user created'' @ endl]" "init_server\<lparr>users := [''alice'']\<rparr>"] ct
    by (simp add: init_sys_def sys_alice_def)
  then show ?thesis by (rule reachable.step [OF reachable.init])
qed

text \<open>
  C12. In every state reachable by any interleaving of the clients' moves (log-ins,
  command lines, entering timeline mode, crashes), the server invariant holds and
  every client in command mode is logged in as a registered user.
\<close>

theorem clients_keep_server_consistent:
  assumes "System.reachable cs s"
  shows "server_inv (srv s)
         \<and> (\<forall>p \<in> set (procs s). mode p = Cl_command \<longrightarrow> user_exists (users (srv s)) (username (cl p)))"
  using reachable_sys_inv [OF assms] by (simp add: sys_inv_def proc_ok_def)

theorem clients_keep_server_consistent_witness:
  "System.reachable [client_new ''alice''] sys_alice \<and> procs sys_alice \<noteq> []
   \<and> mode (hd (procs sys_alice)) = Cl_command \<and> server_inv (srv sys_alice)
   \<and> user_exists (users (srv sys_alice)) (username (cl (hd (procs sys_alice))))"
proof -
  have r: "System.reachable [client_new ''alice''] sys_alice" by (rule reachable_sys_alice)
  have "procs sys_alice \<noteq> [] \<and> mode (hd (procs sys_alice)) = Cl_command" by (simp add: sys_alice_def)
  with r clients_keep_server_consistent [OF r] show ?thesis by (metis list.set_sel(1))
qed

section \<open>Commands and the streams they feed\<close>

text \<open>
  Small facts on the fixtures: each fixture server is reached from the initial
  server by log-ins, follows and posts, so it satisfies the server invariant.
\<close>

lemma srv_ab_inv: "server_inv srv_ab"
proof -
  have e: "srv_ab = snd (srv_login ''bob'' (snd (srv_login ''alice'' init_server)))"
    by (simp add: srv_ab_def init_server_def srv_login_def ensure_user_cases)
  show ?thesis unfolding e by (intro srv_login_inv server_inv_init)
qed

lemma srv_hello_inv: "server_inv srv_hello"
proof -
  have "srv_ab\<lparr>edges := [(''alice'', ''bob'')]\<rparr> = snd (srv_follow ''alice'' ''bob'' srv_ab)"
    by (simp add: srv_ab_def init_server_def srv_follow_def follow_def user_exists_def)
  then show ?thesis by (simp add: srv_hello_def srv_follow_inv srv_post_inv srv_ab_inv)
qed

text \<open>
  A \<open>FOLLOW\<close> or \<open>UNFOLLOW\<close> command line with a name that returns normally went
  through an existing stub.
\<close>

lemma process_command_target_stub:
  assumes "processCommand call c (pre @ b) t s = Inr (r, t1, s1)"
    and "pre = ''FOLLOW '' \<or> pre = ''UNFOLLOW ''"
  shows "stub c \<noteq> None"
  using assms
  by (auto simp: processCommand_def follow_branch_def unfollow_branch_def strncmp_eq_def
      split: option.splits)

text \<open>
  C13. A successful \<open>FOLLOW <name>\<close> command line feeds the follower's stream: after
  the command, the next delivery cycle of any stream of the client's user delivers
  every post of the followee made after the stream's cursor (spec \<section>5, \<section>8).
\<close>

theorem follow_command_streams_followee:
  assumes "server_inv s" "CHR 0x00 \<notin> set b"
    and "processCommand rpc_serve c (''FOLLOW '' @ b) t s = Inr (r, t1, s1)"
    and "comm_status r = SUCCESS" "who x = username c"
    and "p \<in> set (logs (posts s1) b)" "cursor x < stamp p"
  shows "p \<in> set (delivered (deliver s1 x))"
proof -
  let ?res = "follow (user_exists (users s)) (username c) b (edges s)"
  have "stub c \<noteq> None" using assms(3) by (rule process_command_target_stub) simp
  then have s1: "s1 = snd (srv_follow (username c) b s)"
    and st: "comm_status r = status_of ?res"
    using assms(3) process_command_follow [OF _ assms(2), of c rpc_serve t s]
    by (auto simp: split_def Let_def srv_follow_status command_reply_def)
  obtain g where g: "?res = Inr g"
    using assms(4) st by (cases ?res) (auto simp: status_of_fail_not_success)
  then have "edges s1 = g" using s1 by (simp add: srv_follow_def)
  moreover have "(username c, b) \<in> set g" using g by (auto simp: follow_Inr_iff)
  ultimately have "b \<in> set (authors_of (edges s1) (who x))"
    using assms(5) by (simp add: set_authors_of)
  moreover have "server_inv s1" using assms(1) s1 by (simp add: srv_follow_inv)
  ultimately show ?thesis
    using assms(6,7) deliver_complete [of s1 x] by (auto simp: visible_def)
qed

theorem follow_command_streams_followee_witness:
  "server_inv srv_posted \<and> CHR 0x00 \<notin> set ''bob''
   \<and> (\<exists>r t1 s1. processCommand rpc_serve (client0 ''alice'') (''FOLLOW '' @ ''bob'') [] srv_posted = Inr (r, t1, s1)
         \<and> comm_status r = SUCCESS \<and> who (stream0 ''alice'') = username (client0 ''alice'')
         \<and> \<lparr>author = ''bob'', post_text = ''hello'', stamp = 1\<rparr> \<in> set (logs (posts s1) ''bob'')
         \<and> cursor (stream0 ''alice'') < stamp \<lparr>author = ''bob'', post_text = ''hello'', stamp = 1\<rparr>
         \<and> \<lparr>author = ''bob'', post_text = ''hello'', stamp = 1\<rparr> \<in> set (delivered (deliver s1 (stream0 ''alice''))))"
proof -
  have inv: "server_inv srv_posted" by (simp add: srv_posted_def srv_post_inv srv_ab_inv)
  obtain r t1 s1 where pc: "processCommand rpc_serve (client0 ''alice'') (''FOLLOW '' @ ''bob'') [] srv_posted
        = Inr (r, t1, s1)"
    and st: "comm_status r = SUCCESS"
    and lg: "\<lparr>author = ''bob'', post_text = ''hello'', stamp = 1\<rparr> \<in> set (logs (posts s1) ''bob'')"
    using process_command_follow [of "client0 ''alice''" "''bob''" rpc_serve "[]" srv_posted]
    by (simp add: Let_def split_def command_reply_def srv_posted_def srv_post_def srv_ab_def
        init_server_def srv_follow_def follow_def user_exists_def client0_def client_new_def
        decode_status_def append_post_def empty_store_def)
  have who: "who (stream0 ''alice'') = username (client0 ''alice'')"
    and cur: "cursor (stream0 ''alice'') < stamp \<lparr>author = ''bob'', post_text = ''hello'', stamp = 1\<rparr>"
    by (simp_all add: stream0_def client0_def client_new_def)
  show ?thesis
    using inv pc st who lg cur follow_command_streams_followee [OF inv _ pc st who lg cur] by auto
qed

text \<open>
  C14. An \<open>UNFOLLOW <name>\<close> command line (whatever status it returns) stops the
  followee's posts: a delivery cycle run after it on a stream of the client's user
  delivers no new post of the unfollowed user, unless the user unfollowed is the
  client's own user, whose posts every timeline includes.
\<close>

theorem unfollow_command_stops_followee:
  assumes "server_inv s" "CHR 0x00 \<notin> set b" "username c \<noteq> b"
    and "processCommand rpc_serve c (''UNFOLLOW '' @ b) t s = Inr (r, t1, s1)"
    and "who x = username c"
    and "p \<in> set (delivered (deliver s1 x))" "p \<notin> set (delivered x)"
  shows "author p \<noteq> b"
proof -
  have "stub c \<noteq> None" using assms(4) by (rule process_command_target_stub) simp
  then have "s1 = snd (srv_unfollow (username c) b s)"
    using assms(4) process_command_unfollow [OF _ assms(2), of c rpc_serve t s]
    by (auto simp: split_def Let_def command_reply_def)
  then have "srv_unfollow (username c) b s = (fst (srv_unfollow (username c) b s), s1)" by simp
  from unfollowed_author_not_delivered [OF assms(1,3) this assms(5-7)] show ?thesis .
qed

theorem unfollow_command_stops_followee_witness:
  "server_inv srv_both_posted \<and> CHR 0x00 \<notin> set ''bob'' \<and> username (client0 ''alice'') \<noteq> ''bob''
   \<and> (\<exists>r t1 s1. processCommand rpc_serve (client0 ''alice'') (''UNFOLLOW '' @ ''bob'') [] srv_both_posted
            = Inr (r, t1, s1)
         \<and> who (stream0 ''alice'') = username (client0 ''alice'')
         \<and> \<lparr>author = ''alice'', post_text = ''hi'', stamp = 2\<rparr> \<in> set (delivered (deliver s1 (stream0 ''alice'')))
         \<and> \<lparr>author = ''alice'', post_text = ''hi'', stamp = 2\<rparr> \<notin> set (delivered (stream0 ''alice''))
         \<and> author \<lparr>author = ''alice'', post_text = ''hi'', stamp = 2\<rparr> \<noteq> ''bob'')"
proof -
  have inv: "server_inv srv_both_posted" by (simp add: srv_both_posted_def srv_post_inv srv_hello_inv)
  have ne: "username (client0 ''alice'') \<noteq> ''bob''" by (simp add: client0_def client_new_def)
  obtain r t1 s1 where pc: "processCommand rpc_serve (client0 ''alice'') (''UNFOLLOW '' @ ''bob'') [] srv_both_posted
        = Inr (r, t1, s1)"
    and dl: "\<lparr>author = ''alice'', post_text = ''hi'', stamp = 2\<rparr> \<in> set (delivered (deliver s1 (stream0 ''alice'')))"
    using process_command_unfollow [of "client0 ''alice''" "''bob''" rpc_serve "[]" srv_both_posted]
    by (simp add: Let_def split_def command_reply_def srv_both_posted_def srv_hello_def srv_post_def
        srv_ab_def init_server_def srv_unfollow_def unfollow_def user_exists_def client0_def client_new_def
        stream0_def deliver_def timeline_cycle_def kmerge_def posts_after_def authors_of_def following_def
        append_post_def empty_store_def)
  have who: "who (stream0 ''alice'') = username (client0 ''alice'')"
    and nd: "\<lparr>author = ''alice'', post_text = ''hi'', stamp = 2\<rparr> \<notin> set (delivered (stream0 ''alice''))"
    by (simp_all add: stream0_def client0_def client_new_def)
  show ?thesis
    using inv ne pc who dl nd unfollow_command_stops_followee [OF inv _ ne pc who dl nd] by auto
qed

section \<open>Calls through the stub\<close>

text \<open>
  C15. \<open>processCommand\<close> never calls through a null \<open>stub_\<close>: in every state
  reachable by any interleaving of the clients' moves, a client in command mode holds
  the stub \<open>connectTo\<close> created for its \<open>hostname:port\<close>, so no command line
  it sends ends in a call through a null pointer.
\<close>

theorem command_mode_has_stub:
  assumes "System.reachable cs s"
  shows "\<forall>p \<in> set (procs s). mode p = Cl_command \<longrightarrow>
           stub (cl p) = Some (hostname (cl p) @ '':'' @ port (cl p))
           \<and> (\<forall>input. processCommand rpc_serve (cl p) input (console p) (srv s) \<noteq> Inl Null_stub)"
proof -
  have "\<forall>p \<in> set (procs s). mode p = Cl_command \<longrightarrow> stub (cl p) = Some (hostname (cl p) @ '':'' @ port (cl p))"
    using assms
  proof (induction rule: reachable.induct)
    case init
    then show ?case by (simp add: init_sys_def)
  next
    case (step s u)
    from step.hyps(2) step.IH show ?case
    proof (induction rule: sys_step.induct)
      case (connect i s ret c1 t1 s1)
      have "c1 = (cl (procs s ! i))\<lparr>stub := Some (hostname (cl (procs s ! i)) @ '':'' @ port (cl (procs s ! i)))\<rparr>"
        using connect.hyps(3) by (auto simp: connectTo_def split_def Let_def)
      then show ?case using connect.prems by (auto dest: set_update_subset_insert [THEN subsetD])
    next
      case (command i s input r t1 s1)
      then show ?case by (auto dest: set_update_subset_insert [THEN subsetD])
    next
      case (timeline i s input r t1 s1 t2 s2)
      then show ?case by (auto dest: set_update_subset_insert [THEN subsetD])
    next
      case (crash i s input e)
      then show ?case by (auto dest: set_update_subset_insert [THEN subsetD])
    qed
  qed
  then show ?thesis by (auto dest: process_command_null_stub)
qed

theorem command_mode_has_stub_witness:
  "System.reachable [client_new ''alice''] sys_alice
   \<and> hd (procs sys_alice) \<in> set (procs sys_alice) \<and> mode (hd (procs sys_alice)) = Cl_command
   \<and> stub (cl (hd (procs sys_alice))) = Some (hostname (cl (hd (procs sys_alice))) @ '':'' @ port (cl (hd (procs sys_alice))))
   \<and> processCommand rpc_serve (cl (hd (procs sys_alice))) ''FOLLOW bob'' (console (hd (procs sys_alice))) (srv sys_alice)
       \<noteq> Inl Null_stub"
proof -
  have r: "System.reachable [client_new ''alice''] sys_alice" by (rule reachable_sys_alice)
  have h: "hd (procs sys_alice) \<in> set (procs sys_alice)" "mode (hd (procs sys_alice)) = Cl_command"
    by (simp_all add: sys_alice_def)
  show ?thesis using r h command_mode_has_stub [OF r] by blast
qed

section \<open>Bounds\<close>

text \<open>
  C16. \<open>connectTo\<close> returns only 1 or -1 (the two values \<open>run_client\<close> tells
  apart by the sign), always creates the stub for \<open>hostname:port\<close> and prints
  exactly one line, whatever the server answers.
\<close>

theorem connect_to_returns_one_or_minus_one:
  assumes "connectTo call c t s = (ret, c1, t1, s1)"
  shows "ret \<in> {-1, 1} \<and> c1 = c\<lparr>stub := Some (hostname c @ '':'' @ port c)\<rparr> \<and> (\<exists>msg. t1 = t @ [msg])"
  using assms by (auto simp: connectTo_def login_outcome_def split_def Let_def split: if_splits)

theorem connect_to_returns_one_or_minus_one_witness:
  "connectTo rpc_down (client_new ''alice'') [] init_server
     = (-1, client0 ''alice'', [''could not establish a connection to host'' @ endl], init_server)
   \<and> (-1::int) \<in> {-1, 1} \<and> client0 ''alice'' = (client_new ''alice'')\<lparr>stub := Some (hostname (client_new ''alice'') @ '':'' @ port (client_new ''alice''))\<rparr>
   \<and> (\<exists>msg. [''could not establish a connection to host'' @ endl] = [] @ [msg])"
proof -
  have e: "connectTo rpc_down (client_new ''alice'') [] init_server
     = (-1, client0 ''alice'', [''could not establish a connection to host'' @ endl], init_server)"
    by (simp add: connectTo_def login_outcome_def client0_def client_new_def)
  show ?thesis using e connect_to_returns_one_or_minus_one [OF e] by simp
qed

section \<open>Refinement of the command language\<close>

text \<open>
  C17. On every line of the command grammar (an exact command word, one space and a
  name without blanks or NUL), a connected client of a registered user reports the
  status the service's contract gives for that command and leaves the server in the
  contract's state: \<open>processCommand\<close> refines \<open>command_result\<close>.
\<close>

theorem process_command_refines_command_result:
  assumes "parse_command line = Some cmd" "stub c \<noteq> None" "user_exists (users s) (username c)"
  shows "map_sum id (\<lambda>(r, _, s1). (comm_status r, s1)) (processCommand rpc_serve c line t s)
           = Inr (command_result (username c) cmd s)"
proof -
  from render_parse [OF assms(1)] have l: "line = render cmd" and v: "valid_command cmd" by simp_all
  show ?thesis
  proof (cases cmd)
    case (Cmd_follow b)
    then have "CHR 0x00 \<notin> set b" using v by (simp add: valid_name_def)
    then show ?thesis
      using assms(2) by (simp add: l Cmd_follow processCommand_def follow_branch_def strncmp_eq_def
          cstr_append split_def Let_def command_reply_def split: option.split)
  next
    case (Cmd_unfollow b)
    then have "CHR 0x00 \<notin> set b" using v by (simp add: valid_name_def)
    then show ?thesis
      using assms(2) by (simp add: l Cmd_unfollow processCommand_def unfollow_branch_def strncmp_eq_def
          cstr_append split_def Let_def command_reply_def split: option.split)
  next
    case Cmd_list
    then show ?thesis
      using assms(3) by (simp add: l processCommand_def strncmp_eq_def list_branch_def command_reply_def
          srv_list_def)
  next
    case Cmd_timeline
    then show ?thesis
      by (simp add: l processCommand_def strncmp_eq_def timeline_branch_def command_reply_def)
  qed
qed

theorem process_command_refines_command_result_witness:
  "parse_command ''UNFOLLOW bob'' = Some (Cmd_unfollow ''bob'') \<and> stub (client0 ''alice'') \<noteq> None
   \<and> user_exists (users srv_hello) (username (client0 ''alice''))
   \<and> map_sum id (\<lambda>(r, _, s1). (comm_status r, s1)) (processCommand rpc_serve (client0 ''alice'') ''UNFOLLOW bob'' [] srv_hello)
       = Inr (command_result (username (client0 ''alice'')) (Cmd_unfollow ''bob'') srv_hello)"
proof -
  have h: "parse_command ''UNFOLLOW bob'' = Some (Cmd_unfollow ''bob'')" "stub (client0 ''alice'') \<noteq> None"
    "user_exists (users srv_hello) (username (client0 ''alice''))"
    by (simp_all add: parse_command_def valid_name_def client0_def client_new_def srv_hello_def srv_post_def
        srv_ab_def init_server_def user_exists_def)
  show ?thesis using h process_command_refines_command_result [OF h] by blast
qed

section \<open>The endless command loop\<close>

text \<open>
  C18. The \<open>while (1)\<close> loop of \<open>run_client\<close> terminates on every input stream
  that has a \<open>TIMELINE\<close> line at or after the position it starts reading from,
  whatever the server and whatever the lines before: it returns by that line at the
  latest, since a \<open>TIMELINE\<close> line always answers \<open>Grpc_OK\<close> and
  \<open>SUCCESS\<close> and so enters timeline mode.
\<close>

theorem client_loop_stops_by_timeline:
  assumes "inp k = ''TIMELINE''" "n \<le> k"
  shows "\<exists>res t1 s1. client_loop call c inp n t s = Some (res, t1, s1)"
  using assms(2)
proof (induction "k - n" arbitrary: n t s)
  case 0
  then have "n = k" by simp
  moreover have "\<exists>r t1 s1. processCommand call c ''TIMELINE'' t s = Inr (r, t1, s1)
                   \<and> enters_timeline ''TIMELINE'' r"
    by (simp add: processCommand_def strncmp_eq_def timeline_branch_def command_reply_def
        enters_timeline_def)
  ultimately show ?case
    using assms(1) by (subst client_loop.simps) (auto simp: processTimeline_def)
next
  case (Suc d)
  then have "n < k" "d = k - Suc n" by simp_all
  then show ?case
    using Suc.hyps(1) [of "Suc n"]
    by (subst client_loop.simps) (auto simp: processTimeline_def split: sum.splits prod.splits)
qed

theorem client_loop_stops_by_timeline_witness:
  "(\<lambda>i. if i = 2 then ''TIMELINE'' else ''LIST'') (2::nat) = ''TIMELINE'' \<and> (0::nat) \<le> 2
   \<and> (\<exists>res t1 s1. client_loop rpc_serve (client0 ''alice'') (\<lambda>i. if i = 2 then ''TIMELINE'' else ''LIST'')
        0 [] srv_ab = Some (res, t1, s1))"
  using client_loop_stops_by_timeline [of "\<lambda>i. if i = 2 then ''TIMELINE'' else ''LIST''" 2 0 rpc_serve
      "client0 ''alice''" "[]" srv_ab]
  by simp

section \<open>Interleaved commands of two clients\<close>

text \<open>
  C19. Two clients' \<open>FOLLOW\<close> command lines, served in either order, leave the
  server with the same follow relation, and it is exactly the old one plus each
  requested edge (the client's user, the text after the seventh character cut at
  NUL) whose two ends are registered and distinct; users and posts are the same in
  both orders. Only the statuses (which of two equal requests answers
  \<open>FAILURE_ALREADY_EXISTS\<close>) and the order of the edge list depend on the
  interleaving.
\<close>

theorem concurrent_follows_commute:
  assumes "strncmp_eq l1 ''FOLLOW'' 6" "strncmp_eq l2 ''FOLLOW'' 6"
    and "processCommand rpc_serve c1 l1 t1 s = Inr (r1, u1, s1)"
    and "processCommand rpc_serve c2 l2 t2 s1 = Inr (r2, u2, s12)"
    and "processCommand rpc_serve c2 l2 t2' s = Inr (r2', u2', s2)"
    and "processCommand rpc_serve c1 l1 t1' s2 = Inr (r1', u1', s21)"
  shows "set (edges s12) = set (edges s21)
         \<and> set (edges s12) = set (edges s) \<union>
             {(a, b). (a, b) \<in> {(username c1, cstr (drop 7 l1)), (username c2, cstr (drop 7 l2))}
                      \<and> user_exists (users s) a \<and> user_exists (users s) b \<and> a \<noteq> b}
         \<and> users s12 = users s21 \<and> posts s12 = posts s21"
proof -
  have pc: "strncmp_eq l ''FOLLOW'' 6 \<Longrightarrow> processCommand rpc_serve c l t s = Inr (r, t', s')
      \<Longrightarrow> s' = snd (srv_follow (username c) (cstr (drop 7 l)) s)" for l c t s r t' s'
    by (auto simp: processCommand_def follow_branch_def substr_from_def command_reply_def split_def Let_def
        split: if_splits sum.splits option.splits)
  have e: "set (edges (snd (srv_follow a b s))) =
      (if user_exists (users s) a \<and> a \<noteq> b \<and> user_exists (users s) b
       then insert (a, b) (set (edges s)) else set (edges s))" for a b s
    by (auto simp: srv_follow_def follow_def split: sum.splits if_splits)
  have "s1 = snd (srv_follow (username c1) (cstr (drop 7 l1)) s)"
    "s12 = snd (srv_follow (username c2) (cstr (drop 7 l2)) s1)"
    "s2 = snd (srv_follow (username c2) (cstr (drop 7 l2)) s)"
    "s21 = snd (srv_follow (username c1) (cstr (drop 7 l1)) s2)"
    using assms pc by blast+
  then show ?thesis by (auto simp: e split: if_splits)
qed

theorem concurrent_follows_commute_witness:
  "processCommand rpc_serve (client0 ''alice'') ''FOLLOW bob'' [] srv_ab
     = Inr (\<lparr>grpc_status = Grpc_OK, comm_status = SUCCESS, all_users = [], following_users = []\<rparr>,
            [''follow command'', ''FOLLOW bob'', ''0''], srv_ab\<lparr>edges := [(''alice'', ''bob'')]\<rparr>)
   \<and> processCommand rpc_serve (client0 ''bob'') ''FOLLOW alice'' [] (srv_ab\<lparr>edges := [(''alice'', ''bob'')]\<rparr>)
     = Inr (\<lparr>grpc_status = Grpc_OK, comm_status = SUCCESS, all_users = [], following_users = []\<rparr>,
            [''follow command'', ''FOLLOW alice'', ''0''], srv_ab\<lparr>edges := [(''alice'', ''bob''), (''bob'', ''alice'')]\<rparr>)
   \<and> processCommand rpc_serve (client0 ''bob'') ''FOLLOW alice'' [] srv_ab
     = Inr (\<lparr>grpc_status = Grpc_OK, comm_status = SUCCESS, all_users = [], following_users = []\<rparr>,
            [''follow command'', ''FOLLOW alice'', ''0''], srv_ab\<lparr>edges := [(''bob'', ''alice'')]\<rparr>)
   \<and> processCommand rpc_serve (client0 ''alice'') ''FOLLOW bob'' [] (srv_ab\<lparr>edges := [(''bob'', ''alice'')]\<rparr>)
     = Inr (\<lparr>grpc_status = Grpc_OK, comm_status = SUCCESS, all_users = [], following_users = []\<rparr>,
            [''follow command'', ''FOLLOW bob'', ''0''], srv_ab\<lparr>edges := [(''bob'', ''alice''), (''alice'', ''bob'')]\<rparr>)
   \<and> set (edges (srv_ab\<lparr>edges := [(''alice'', ''bob''), (''bob'', ''alice'')]\<rparr>))
     = set (edges (srv_ab\<lparr>edges := [(''bob'', ''alice''), (''alice'', ''bob'')]\<rparr>))"
proof -
  have p: "processCommand rpc_serve (client0 ''alice'') ''FOLLOW bob'' [] srv_ab
     = Inr (\<lparr>grpc_status = Grpc_OK, comm_status = SUCCESS, all_users = [], following_users = []\<rparr>,
            [''follow command'', ''FOLLOW bob'', ''0''], srv_ab\<lparr>edges := [(''alice'', ''bob'')]\<rparr>)"
    "processCommand rpc_serve (client0 ''bob'') ''FOLLOW alice'' [] (srv_ab\<lparr>edges := [(''alice'', ''bob'')]\<rparr>)
     = Inr (\<lparr>grpc_status = Grpc_OK, comm_status = SUCCESS, all_users = [], following_users = []\<rparr>,
            [''follow command'', ''FOLLOW alice'', ''0''], srv_ab\<lparr>edges := [(''alice'', ''bob''), (''bob'', ''alice'')]\<rparr>)"
    "processCommand rpc_serve (client0 ''bob'') ''FOLLOW alice'' [] srv_ab
     = Inr (\<lparr>grpc_status = Grpc_OK, comm_status = SUCCESS, all_users = [], following_users = []\<rparr>,
            [''follow command'', ''FOLLOW alice'', ''0''], srv_ab\<lparr>edges := [(''bob'', ''alice'')]\<rparr>)"
    "processCommand rpc_serve (client0 ''alice'') ''FOLLOW bob'' [] (srv_ab\<lparr>edges := [(''bob'', ''alice'')]\<rparr>)
     = Inr (\<lparr>grpc_status = Grpc_OK, comm_status = SUCCESS, all_users = [], following_users = []\<rparr>,
            [''follow command'', ''FOLLOW bob'', ''0''], srv_ab\<lparr>edges := [(''bob'', ''alice''), (''alice'', ''bob'')]\<rparr>)"
    by (simp_all add: processCommand_def follow_branch_def strncmp_eq_def cstr_def substr_from_def
        command_reply_def client0_def client_new_def srv_ab_def init_server_def srv_follow_def follow_def
        user_exists_def decode_status_def)
  have f: "strncmp_eq ''FOLLOW bob'' ''FOLLOW'' 6" "strncmp_eq ''FOLLOW alice'' ''FOLLOW'' 6"
    by (simp_all add: strncmp_eq_def cstr_def)
  show ?thesis using p concurrent_follows_commute [OF f p] by simp
qed

end
